theory Spec2Isabelle
  imports Main "HOL-Library.AList" "HOL-Library.Sublist"
begin

section \<open>Strings\<close>

text \<open>
  Go's \<open>strings.Split(s, sep)\<close> for a non-empty separator: the pieces of \<open>s\<close> between
  the non-overlapping occurrences of \<open>sep\<close>, found from the left; a string without
  any occurrence gives the one-element list \<open>[s]\<close>. Every call in \<open>orm.go\<close> passes a
  constant non-empty separator (\<open>"->"\<close>, \<open>","\<close> or \<open>"@"\<close>); for the empty separator,
  which Go explodes into characters, the model returns one piece per byte.
\<close>

function strings_Split :: "string \<Rightarrow> string \<Rightarrow> string list" where
  "strings_Split [] sep = (if sep = [] then [] else [[]])"
| "strings_Split (c # cs) sep =
     (if sep = [] then map (\<lambda>x. [x]) (c # cs)
      else if take (length sep) (c # cs) = sep
      then [] # strings_Split (drop (length sep) (c # cs)) sep
      else (case strings_Split cs sep of
              [] \<Rightarrow> [[c]]
            | p # ps \<Rightarrow> (c # p) # ps))"
  by pat_completeness auto
termination
  by (relation "measure (\<lambda>(s, sep). length s)") auto

text \<open>\<open>strings.Join\<close>, the inverse of \<open>strings.Split\<close>.\<close>

fun strings_Join :: "string list \<Rightarrow> string \<Rightarrow> string" where
  "strings_Join [] sep = []"
| "strings_Join [p] sep = p"
| "strings_Join (p # q # ps) sep = p @ sep @ strings_Join (q # ps) sep"

text \<open>\<open>strings.ToLower\<close> on the ASCII letters (bytes outside \<open>A\<close>..\<open>Z\<close> are kept).\<close>

definition strings_ToLower :: "string \<Rightarrow> string" where
  "strings_ToLower s =
     map (\<lambda>c. let n = (of_char c :: nat) in if 65 \<le> n \<and> n \<le> 90 then char_of (n + 32) else c) s"

section \<open>The generator and its options\<close>

text \<open>
  The options of \<open>gorm.io/gen\<close> that \<open>orm.go\<close> builds. \<open>FieldGORMTag c v\<close> stands for
  \<open>gen.FieldGORMTag(c, func(tag) { return tag.Set("column", v) })\<close>, the only closure
  the source passes.
\<close>

datatype ModelOpt =
    FieldIgnore "string list"
  | FieldJSONTag string string
  | FieldGORMTag string string

text \<open>
  What \<open>GenerateModel\<close> and \<open>GenerateModelAs\<close> return, as far as \<open>orm.go\<close> reads it:
  the table name (which \<open>dao\<close> reads by reflection) and the requested model name.
\<close>

record QueryStructMeta =
  TableName :: string
  ModelStructName :: "string option"

text \<open>
  The generator is an external library: the model keeps the trace of the calls that
  \<open>orm.go\<close> makes on it, in order, with their arguments.
\<close>

datatype ('fn, 'api) GenCall =
    UseDB
  | WithJSONTagNameStrategy "string \<Rightarrow> string"
  | WithFileNameStrategy "string \<Rightarrow> string"
  | WithDataTypeMap "(string \<times> 'fn) list"
  | GenerateModel string "ModelOpt list"
  | GenerateModelAs string string "ModelOpt list"
  | ApplyBasic "QueryStructMeta list"
  | ApplyInterface 'api "QueryStructMeta list"
  | Execute

section \<open>The command's state\<close>

text \<open>
  \<open>ErrorsNew\<close> is an error value made by \<open>errors.New\<close> or returned by a library call;
  \<open>NilDereference\<close> is the run-time panic of a method call through a nil pointer.
\<close>

datatype error = ErrorsNew string | NilDereference

text \<open>Lines written to the terminal by \<open>color.Red\<close>, \<open>color.Yellow\<close> and \<open>color.Green\<close>.\<close>

datatype Msg = Red string | Yellow string | Green string

text \<open>
  The database handle, as far as it is used: the result of \<open>Migrator().GetTables()\<close>,
  either the message of the error it returns or the table names.
\<close>

record DB =
  GetTables :: "string + string list"

text \<open>
  Go maps are association lists with distinct keys, read with \<open>map_of\<close> and written
  with \<open>AList.update\<close>; for \<open>dataType\<close> and \<open>daoApi\<close>, which the code ranges over, the
  order of the list is the order of that iteration. \<open>None\<close> is the nil map.
  \<open>'fn\<close> is the type of the \<open>DataTypeFn\<close> function values, \<open>'api\<close> that of the
  interface values of \<open>daoApi\<close>; the opaque \<open>gen.Config\<close> is left out.
\<close>

record ('fn, 'api) OrmOption =
  db :: "DB option"
  rename :: "(string \<times> string) list"
  ignore :: "string list"
  retags :: "string list"
  reGromTags :: "string list"
  dataType :: "(string \<times> 'fn) list option"
  daoTables :: "string list"
  daoApi :: "(string \<times> 'api) list"

text \<open>
  The \<open>Orm\<close> struct. \<open>generator\<close> is \<open>None\<close> while the pointer is nil and otherwise the
  trace of the calls made so far; \<open>console\<close> collects the terminal output.
\<close>

record ('fn, 'api) Orm =
  opt :: "('fn, 'api) OrmOption"
  generator :: "('fn, 'api) GenCall list option"
  retagopt :: "(string \<times> (string \<times> string) list) list"
  regormtag :: "(string \<times> (string \<times> string) list) list"
  ignoreopt :: "(string \<times> string list) list"
  types :: "(string \<times> (string \<times> 'fn) list) list"
  globalTypes :: "(string \<times> 'fn) list"
  global :: "ModelOpt list"
  structs :: "QueryStructMeta list"
  console :: "Msg list"

text \<open>
  The zero value \<open>&OrmOption{}\<close>, the option interface \<open>IOrmOption\<close> as the function
  its \<open>apply\<close> runs, and the functional options \<open>WithDB\<close> ... \<open>WithDaoApi\<close>
  (lines 434-495), each setting one field.
\<close>

type_synonym ('fn, 'api) IOrmOption = "('fn, 'api) OrmOption \<Rightarrow> ('fn, 'api) OrmOption"

definition OrmOption_zero :: "('fn, 'api) OrmOption" where
  "OrmOption_zero =
     \<lparr> db = None, rename = [], ignore = [], retags = [], reGromTags = [], dataType = None,
       daoTables = [], daoApi = [] \<rparr>"

definition WithDB :: "DB \<Rightarrow> ('fn, 'api) OrmOption \<Rightarrow> ('fn, 'api) OrmOption" where
  "WithDB d op = op\<lparr>db := Some d\<rparr>"

definition WithRename ::
  "(string \<times> string) list \<Rightarrow> ('fn, 'api) OrmOption \<Rightarrow> ('fn, 'api) OrmOption" where
  "WithRename rn op = op\<lparr>rename := rn\<rparr>"

definition WithIgnore :: "string list \<Rightarrow> ('fn, 'api) OrmOption \<Rightarrow> ('fn, 'api) OrmOption" where
  "WithIgnore ig op = op\<lparr>ignore := ig\<rparr>"

definition WithRetags :: "string list \<Rightarrow> ('fn, 'api) OrmOption \<Rightarrow> ('fn, 'api) OrmOption" where
  "WithRetags rt op = op\<lparr>retags := rt\<rparr>"

definition WithReGromTags ::
  "string list \<Rightarrow> ('fn, 'api) OrmOption \<Rightarrow> ('fn, 'api) OrmOption" where
  "WithReGromTags rt op = op\<lparr>reGromTags := rt\<rparr>"

definition WithDataType ::
  "(string \<times> 'fn) list option \<Rightarrow> ('fn, 'api) OrmOption \<Rightarrow> ('fn, 'api) OrmOption" where
  "WithDataType dt op = op\<lparr>dataType := dt\<rparr>"

definition WithDaoTables ::
  "string list \<Rightarrow> ('fn, 'api) OrmOption \<Rightarrow> ('fn, 'api) OrmOption" where
  "WithDaoTables ts op = op\<lparr>daoTables := ts\<rparr>"

definition WithDaoApi ::
  "(string \<times> 'api) list \<Rightarrow> ('fn, 'api) OrmOption \<Rightarrow> ('fn, 'api) OrmOption" where
  "WithDaoApi api op = op\<lparr>daoApi := api\<rparr>"

text \<open>
  \<open>NewOrmCommand\<close> (lines 104-117): the options are applied in order to the zero
  value; \<open>regormtag\<close>, \<open>global\<close> and \<open>structs\<close> keep their nil zero values, which read
  as empty, and \<open>generator\<close> stays nil until \<open>run\<close> creates it.
\<close>

definition NewOrmCommand :: "('fn, 'api) IOrmOption list \<Rightarrow> ('fn, 'api) Orm" where
  "NewOrmCommand opts =
     \<lparr> opt = fold (\<lambda>ap op. ap op) opts OrmOption_zero,
       generator = None, retagopt = [], regormtag = [], ignoreopt = [],
       types = [], globalTypes = [], global = [], structs = [], console = [] \<rparr>"

text \<open>Reading a slice-valued or map-valued Go map at a key: a missing key gives nil.\<close>

definition lookupList :: "(string \<times> 'a list) list \<Rightarrow> string \<Rightarrow> 'a list" where
  "lookupList m k = (case map_of m k of None \<Rightarrow> [] | Some v \<Rightarrow> v)"

text \<open>A method call on \<open>o.generator\<close>: it panics on the nil pointer, else it is recorded.\<close>

definition genCall ::
  "('fn, 'api) GenCall \<Rightarrow> ('fn, 'api) Orm \<Rightarrow> error option \<times> ('fn, 'api) Orm" where
  "genCall c orm =
     (case generator orm of
        None \<Rightarrow> (Some NilDereference, orm)
      | Some tr \<Rightarrow> (None, orm\<lparr>generator := Some (tr @ [c])\<rparr>))"

section \<open>formatGlobal\<close>

text \<open>
  The four loops of \<open>formatGlobal\<close> (lines 297-378). Each returns Go's \<open>error\<close>
  (\<open>None\<close> is nil) with the state as the loop left it; the first two also carry the
  local map they fill.
\<close>

fun retagsLoop ::
  "string list \<Rightarrow> (string \<times> (string \<times> string) list) list \<Rightarrow> ('fn, 'api) Orm \<Rightarrow>
   error option \<times> (string \<times> (string \<times> string) list) list \<times> ('fn, 'api) Orm" where
  "retagsLoop [] retags_m orm = (None, retags_m, orm)"
| "retagsLoop (retag # rest) retags_m orm =
     (let parts = strings_Split retag ''->'' in
      if length parts \<noteq> 3 then (Some (ErrorsNew (''invalid retag format: '' @ retag)), retags_m, orm)
      else if parts ! 0 = ''*''
      then retagsLoop rest retags_m
             (orm\<lparr>global := global orm @ [FieldJSONTag (parts ! 1) (parts ! 2 @ '',omitempty'')]\<rparr>)
      else retagsLoop rest
             (AList.update (parts ! 0)
                (lookupList retags_m (parts ! 0) @ [(parts ! 1, parts ! 2 @ '',omitempty'')]) retags_m)
             orm)"

text \<open>
  The second loop fills its own local map \<open>regormtags\<close>, and appends to the entry of
  the \<^emph>\<open>retag\<close> map (line 328: \<open>regormtags[parts[0]] = append(retags[parts[0]], ...)\<close>).
\<close>

fun reGromTagsLoop ::
  "string list \<Rightarrow> (string \<times> (string \<times> string) list) list \<Rightarrow>
   (string \<times> (string \<times> string) list) list \<Rightarrow> ('fn, 'api) Orm \<Rightarrow>
   error option \<times> (string \<times> (string \<times> string) list) list \<times> ('fn, 'api) Orm" where
  "reGromTagsLoop [] retags_m regormtags orm = (None, regormtags, orm)"
| "reGromTagsLoop (retag # rest) retags_m regormtags orm =
     (let parts = strings_Split retag ''->'' in
      if length parts \<noteq> 3
      then (Some (ErrorsNew (''invalid retag format: '' @ retag)), regormtags, orm)
      else if parts ! 0 = ''*''
      then reGromTagsLoop rest retags_m regormtags
             (orm\<lparr>global := global orm @ [FieldGORMTag (parts ! 1) (parts ! 2)]\<rparr>)
      else reGromTagsLoop rest retags_m
             (AList.update (parts ! 0)
                (lookupList retags_m (parts ! 0) @ [(parts ! 1, parts ! 2)]) regormtags)
             orm)"

fun ignoreLoop :: "string list \<Rightarrow> ('fn, 'api) Orm \<Rightarrow> error option \<times> ('fn, 'api) Orm" where
  "ignoreLoop [] orm = (None, orm)"
| "ignoreLoop (ign # rest) orm =
     (let parts = strings_Split ign ''->'' in
      if length parts \<noteq> 2 then (Some (ErrorsNew (''invalid ignore format: '' @ ign)), orm)
      else let fields = strings_Split (parts ! 1) '','' in
        if parts ! 0 = ''*''
        then ignoreLoop rest (orm\<lparr>global := global orm @ [FieldIgnore fields]\<rparr>)
        else ignoreLoop rest
               (orm\<lparr>ignoreopt :=
                    AList.update (parts ! 0) (lookupList (ignoreopt orm) (parts ! 0) @ fields)
                      (ignoreopt orm)\<rparr>))"

fun dataTypeLoop ::
  "(string \<times> 'fn) list \<Rightarrow> ('fn, 'api) Orm \<Rightarrow> error option \<times> ('fn, 'api) Orm" where
  "dataTypeLoop [] orm = (None, orm)"
| "dataTypeLoop ((key, typ) # rest) orm =
     (let parts = strings_Split key ''->'' in
      if length parts \<noteq> 2
      then (Some (ErrorsNew (''invalid data type mapping format: '' @ key)), orm)
      else if parts ! 0 = ''*''
      then dataTypeLoop rest (orm\<lparr>globalTypes := AList.update (parts ! 1) typ (globalTypes orm)\<rparr>)
      else dataTypeLoop rest
             (orm\<lparr>types :=
                  AList.update (parts ! 0)
                    (AList.update (parts ! 1) typ (lookupList (types orm) (parts ! 0)))
                    (types orm)\<rparr>))"

text \<open>The file-name strategy installed when \<open>rename\<close> is not empty (lines 347-352).\<close>

definition fileNameStrategy :: "(string \<times> string) list \<Rightarrow> string \<Rightarrow> string" where
  "fileNameStrategy rn tableName =
     (case map_of rn tableName of
        None \<Rightarrow> strings_ToLower tableName
      | Some fileName \<Rightarrow> fileName)"

definition formatGlobal :: "('fn, 'api) Orm \<Rightarrow> error option \<times> ('fn, 'api) Orm" where
  "formatGlobal orm =
     (case retagsLoop (retags (opt orm)) [] orm of
        (Some err, _, o1) \<Rightarrow> (Some err, o1)
      | (None, retags_m, o1) \<Rightarrow>
          let o2 = o1\<lparr>retagopt := retags_m\<rparr> in
          (case reGromTagsLoop (reGromTags (opt o2)) retags_m [] o2 of
             (Some err, _, o3) \<Rightarrow> (Some err, o3)
           | (None, regormtags, o3) \<Rightarrow>
               (case ignoreLoop (ignore (opt o3)) o3 of
                  (Some err, o4) \<Rightarrow> (Some err, o4)
                | (None, o4) \<Rightarrow>
                    (case (if length (rename (opt o4)) > 0
                           then genCall (WithFileNameStrategy (fileNameStrategy (rename (opt o4)))) o4
                           else (None, o4)) of
                       (Some err, o5) \<Rightarrow> (Some err, o5)
                     | (None, o5) \<Rightarrow>
                         (case dataType (opt o5) of
                            None \<Rightarrow> (None, o5)
                          | Some dt \<Rightarrow> dataTypeLoop dt o5)))))"

section \<open>Resolving the options of one table\<close>

text \<open>
  \<open>optByTable\<close> (lines 381-413) returns the options of the table and Go's \<open>error\<close>,
  which the source always leaves nil; the state changes by the call of
  \<open>WithDataTypeMap\<close>. \<open>maps.Clone\<close> is the identity on values and \<open>maps.Copy\<close> is
  \<open>AList.merge\<close>: the entries of the second map overwrite those of the first.
\<close>

definition optByTable ::
  "('fn, 'api) Orm \<Rightarrow> string \<Rightarrow> ModelOpt list \<times> error option \<times> ('fn, 'api) Orm" where
  "optByTable orm table =
     (let opts = [];
          opts = (case map_of (ignoreopt orm) table of
                    Some ign \<Rightarrow> opts @ [FieldIgnore ign]
                  | None \<Rightarrow> opts);
          opts = (case map_of (retagopt orm) table of
                    Some rt \<Rightarrow> opts @ map (\<lambda>r. FieldJSONTag (fst r) (snd r)) rt
                  | None \<Rightarrow> opts);
          opts = (case map_of (regormtag orm) table of
                    Some rgt \<Rightarrow> opts @ map (\<lambda>r. FieldGORMTag (fst r) (snd r)) rgt
                  | None \<Rightarrow> opts);
          types_t = globalTypes orm;
          types_t = (case map_of (types orm) table of
                       Some ty \<Rightarrow> AList.merge types_t ty
                     | None \<Rightarrow> types_t)
      in if length types_t = 0 then (opts, None, orm)
         else (case genCall (WithDataTypeMap types_t) orm of (err, orm') \<Rightarrow> (opts, err, orm')))"

text \<open>\<open>genoptByTable\<close> (lines 416-430).\<close>

definition genoptByTable ::
  "('fn, 'api) Orm \<Rightarrow> string \<Rightarrow> error option \<times> ('fn, 'api) Orm" where
  "genoptByTable orm table =
     (case map_of (types orm) table of
        None \<Rightarrow> (None, orm)
      | Some ty \<Rightarrow>
          let types_t = AList.merge (globalTypes orm) ty
          in if length types_t = 0 then (None, orm)
             else genCall (WithDataTypeMap types_t) orm)"

section \<open>Generating the models\<close>

text \<open>
  The two generator calls of \<open>model\<close>, with the value they return appended to
  \<open>o.structs\<close>: the library's \<open>GenerateModel(tableName, opts...)\<close> and
  \<open>GenerateModelAs(tableName, modelName, opts...)\<close>.
\<close>

definition generateModel ::
  "string \<Rightarrow> ModelOpt list \<Rightarrow> ('fn, 'api) Orm \<Rightarrow> error option \<times> ('fn, 'api) Orm" where
  "generateModel tableName opts orm =
     (case genCall (GenerateModel tableName opts) orm of
        (Some err, orm') \<Rightarrow> (Some err, orm')
      | (None, orm') \<Rightarrow>
          (None, orm'\<lparr>structs := structs orm' @ [\<lparr>TableName = tableName, ModelStructName = None\<rparr>]\<rparr>))"

definition generateModelAs ::
  "string \<Rightarrow> string \<Rightarrow> ModelOpt list \<Rightarrow> ('fn, 'api) Orm \<Rightarrow> error option \<times> ('fn, 'api) Orm" where
  "generateModelAs tableName modelName opts orm =
     (case genCall (GenerateModelAs tableName modelName opts) orm of
        (Some err, orm') \<Rightarrow> (Some err, orm')
      | (None, orm') \<Rightarrow>
          (None, orm'\<lparr>structs := structs orm' @
                         [\<lparr>TableName = tableName, ModelStructName = Some modelName\<rparr>]\<rparr>))"

text \<open>
  The loop of \<open>model\<close> over the tables (lines 265-291). \<open>opts\<close> is the slice declared
  before the loop: each round appends to it and hands it to the next.
\<close>

fun modelLoop ::
  "string list \<Rightarrow> ModelOpt list \<Rightarrow> ('fn, 'api) Orm \<Rightarrow> error option \<times> ('fn, 'api) Orm" where
  "modelLoop [] opts orm = (None, orm)"
| "modelLoop (val # rest) opts orm =
     (let vals = strings_Split val ''@'' in
      if length vals > 2
      then modelLoop rest opts
             (orm\<lparr>console := console orm @
                [Yellow (''Skipping invalid table format: '' @ val @
                         ''. Expected format: table@modelName'' @ [CHR 0x0A])]\<rparr>)
      else (case optByTable orm (vals ! 0) of
              (tableopt, Some err, orm1) \<Rightarrow> (Some err, orm1)
            | (tableopt, None, orm1) \<Rightarrow>
                let opts = opts @ tableopt in
                (case genoptByTable orm1 (vals ! 0) of
                   (Some err, orm2) \<Rightarrow> (Some err, orm2)
                 | (None, orm2) \<Rightarrow>
                     if length vals = 1
                     then (case generateModel (vals ! 0) opts orm2 of
                             (Some err, orm3) \<Rightarrow> (Some err, orm3)
                           | (None, orm3) \<Rightarrow> modelLoop rest opts orm3)
                     else (case generateModelAs (vals ! 1) (vals ! 0) opts orm2 of
                             (Some err, orm3) \<Rightarrow> (Some err, orm3)
                           | (None, orm3) \<Rightarrow> modelLoop rest opts orm3))))"

text \<open>\<open>model\<close> (lines 249-294).\<close>

definition model ::
  "('fn, 'api) Orm \<Rightarrow> string list \<Rightarrow> error option \<times> ('fn, 'api) Orm" where
  "model orm tables =
     (case (if length tables = 0
            then (case db (opt orm) of
                    None \<Rightarrow> Inl NilDereference
                  | Some d \<Rightarrow>
                      (case GetTables d of
                         Inl msg \<Rightarrow> Inl (ErrorsNew msg)
                       | Inr tables \<Rightarrow> Inr tables))
            else Inr tables) of
        Inl err \<Rightarrow> (Some err, orm)
      | Inr tables \<Rightarrow>
          let opts = [];
              opts = (if length (ignore (opt orm)) > 0
                      then opts @ [FieldIgnore (ignore (opt orm))] else opts);
              opts = opts @ global orm
          in modelLoop tables opts orm)"

section \<open>The DAO step and the command\<close>

text \<open>The loop of \<open>dao\<close> over \<open>daoApi\<close> (lines 235-244).\<close>

fun daoApiLoop ::
  "(string \<times> 'api) list \<Rightarrow> (string \<times> QueryStructMeta) list \<Rightarrow> ('fn, 'api) Orm \<Rightarrow>
   error option \<times> ('fn, 'api) Orm" where
  "daoApiLoop [] structs_m orm = (None, orm)"
| "daoApiLoop ((table, annotae) # rest) structs_m orm =
     (if table = ''*'' then daoApiLoop rest structs_m orm
      else (case map_of structs_m table of
              None \<Rightarrow> daoApiLoop rest structs_m orm
            | Some s \<Rightarrow>
                (case genCall (ApplyInterface annotae [s]) orm of
                   (Some err, orm') \<Rightarrow> (Some err, orm')
                 | (None, orm') \<Rightarrow> daoApiLoop rest structs_m orm')))"

text \<open>\<open>dao\<close> (lines 211-246).\<close>

definition dao :: "('fn, 'api) Orm \<Rightarrow> error option \<times> ('fn, 'api) Orm" where
  "dao orm =
     (if length (structs orm) = 0
      then (Some (ErrorsNew ''no structs available for DAO generation''), orm)
      else
        let sel = filter (\<lambda>meta. ''*'' \<in> set (daoTables (opt orm)) \<or>
                                 TableName meta \<in> set (daoTables (opt orm))) (structs orm);
            structs_m = fold (\<lambda>meta m. AList.update (TableName meta) meta m) sel []
        in if length sel = 0
           then (Some (ErrorsNew ''no matching structs found for DAO generation''), orm)
           else (case genCall (ApplyBasic sel) orm of
                   (Some err, orm1) \<Rightarrow> (Some err, orm1)
                 | (None, orm1) \<Rightarrow>
                     (case (case map_of (daoApi (opt orm1)) ''*'' of
                              Some globalAnnotae \<Rightarrow> genCall (ApplyInterface globalAnnotae sel) orm1
                            | None \<Rightarrow> (None, orm1)) of
                        (Some err, orm2) \<Rightarrow> (Some err, orm2)
                      | (None, orm2) \<Rightarrow> daoApiLoop (daoApi (opt orm2)) structs_m orm2)))"

text \<open>
  The flags of the command as \<open>exec\<close> reads them: the results of
  \<open>GetString("style")\<close> and \<open>GetStringArray("tables")\<close>, each the message of the
  error or the value.
\<close>

record FlagSet =
  GetString_style :: "string + string"
  GetStringArray_tables :: "string + string list"

text \<open>\<open>exec\<close> (lines 184-208).\<close>

definition exec :: "('fn, 'api) Orm \<Rightarrow> FlagSet \<Rightarrow> error option \<times> ('fn, 'api) Orm" where
  "exec orm args =
     (case GetString_style args of
        Inl msg \<Rightarrow> (Some (ErrorsNew msg), orm)
      | Inr style \<Rightarrow>
          (case GetStringArray_tables args of
             Inl msg \<Rightarrow> (Some (ErrorsNew msg), orm)
           | Inr tables \<Rightarrow>
               (case model orm tables of
                  (Some err, orm1) \<Rightarrow> (Some err, orm1)
                | (None, orm1) \<Rightarrow>
                    if style = ''model'' then genCall Execute orm1
                    else (case dao orm1 of
                            (Some err, orm2) \<Rightarrow> (Some err, orm2)
                          | (None, orm2) \<Rightarrow> genCall Execute orm2))))"

text \<open>
  \<open>run\<close> (lines 156-181). The Go function returns nothing: the first component is
  \<open>None\<close> when it returns and \<open>Some NilDereference\<close> when it panics. An error of
  \<open>formatGlobal\<close> or \<open>exec\<close> is printed in red and ends the run.
\<close>

definition run :: "('fn, 'api) Orm \<Rightarrow> FlagSet \<Rightarrow> error option \<times> ('fn, 'api) Orm" where
  "run orm flags =
     (if db (opt orm) = None
      then (None, orm\<lparr>console := console orm @
              [Red ([CHR 0x0A] @ ''Error: Database connection is not provided'' @ [CHR 0x0A, CHR 0x0A])]\<rparr>)
      else
        let orm0 = orm\<lparr>generator :=
                     Some [UseDB,
                           WithJSONTagNameStrategy (\<lambda>columnName. columnName @ '',omitempty'')]\<rparr>
        in (case formatGlobal orm0 of
              (Some NilDereference, orm1) \<Rightarrow> (Some NilDereference, orm1)
            | (Some (ErrorsNew msg), orm1) \<Rightarrow>
                (None, orm1\<lparr>console := console orm1 @
                   [Red ([CHR 0x0A] @ ''Error formatting retags: '' @ msg @ [CHR 0x0A, CHR 0x0A])]\<rparr>)
            | (None, orm1) \<Rightarrow>
                (case exec orm1 flags of
                   (Some NilDereference, orm2) \<Rightarrow> (Some NilDereference, orm2)
                 | (Some (ErrorsNew msg), orm2) \<Rightarrow>
                     (None, orm2\<lparr>console := console orm2 @
                        [Red ([CHR 0x0A] @ ''Error generating Gorm code: '' @ msg @ [CHR 0x0A, CHR 0x0A])]\<rparr>)
                 | (None, orm2) \<Rightarrow>
                     (None, orm2\<lparr>console := console orm2 @
                        [Green ([CHR 0x0A] @ ''Gorm code generation completed successfully.'' @
                                [CHR 0x0A, CHR 0x0A])]\<rparr>))))"

section \<open>The directives of a configuration\<close>

text \<open>
  The rules that the directives of one scope stand for, in the order of the
  configuration: a directive belongs to the scope \<open>T\<close> when its first \<open>->\<close> segment
  is \<open>T\<close>. These functions state what \<open>formatGlobal\<close> is expected to store; the theorems
  below compare them with what the loops compute.
\<close>

definition retagRules :: "string \<Rightarrow> string list \<Rightarrow> (string \<times> string) list" where
  "retagRules T ds =
     map (\<lambda>d. (strings_Split d ''->'' ! 1, strings_Split d ''->'' ! 2 @ '',omitempty''))
       (filter (\<lambda>d. strings_Split d ''->'' ! 0 = T) ds)"

definition gormRules :: "string \<Rightarrow> string list \<Rightarrow> (string \<times> string) list" where
  "gormRules T ds =
     map (\<lambda>d. (strings_Split d ''->'' ! 1, strings_Split d ''->'' ! 2))
       (filter (\<lambda>d. strings_Split d ''->'' ! 0 = T) ds)"

definition ignoreRules :: "string \<Rightarrow> string list \<Rightarrow> string list list" where
  "ignoreRules T ds =
     map (\<lambda>d. strings_Split (strings_Split d ''->'' ! 1) '','')
       (filter (\<lambda>d. strings_Split d ''->'' ! 0 = T) ds)"

definition typeRules :: "string \<Rightarrow> (string \<times> 'fn) list \<Rightarrow> (string \<times> 'fn) list" where
  "typeRules T dt =
     map (\<lambda>kv. (strings_Split (fst kv) ''->'' ! 1, snd kv))
       (filter (\<lambda>kv. strings_Split (fst kv) ''->'' ! 0 = T) dt)"

definition lookup2 :: "(string \<times> (string \<times> 'a) list) list \<Rightarrow> string \<Rightarrow> string \<Rightarrow> 'a option" where
  "lookup2 m T k = (case map_of m T of None \<Rightarrow> None | Some inner \<Rightarrow> map_of inner k)"

definition dataTypeEntries :: "('fn, 'api) OrmOption \<Rightarrow> (string \<times> 'fn) list" where
  "dataTypeEntries op = (case dataType op of None \<Rightarrow> [] | Some dt \<Rightarrow> dt)"

definition wellFormed :: "('fn, 'api) OrmOption \<Rightarrow> bool" where
  "wellFormed op \<longleftrightarrow>
     (\<forall>d\<in>set (retags op). length (strings_Split d ''->'') = 3) \<and>
     (\<forall>d\<in>set (reGromTags op). length (strings_Split d ''->'') = 3) \<and>
     (\<forall>d\<in>set (ignore op). length (strings_Split d ''->'') = 2) \<and>
     (\<forall>kv\<in>set (dataTypeEntries op). length (strings_Split (fst kv) ''->'') = 2)"

definition resolved ::
  "('fn, 'api) OrmOption \<Rightarrow> ('fn, 'api) GenCall list option \<Rightarrow> ('fn, 'api) Orm \<Rightarrow> bool" where
  "resolved op gen orm' \<longleftrightarrow>
     opt orm' = op \<and>
     generator orm' =
       (if rename op = [] then gen
        else map_option (\<lambda>tr. tr @ [WithFileNameStrategy (fileNameStrategy (rename op))]) gen) \<and>
     global orm' =
       map (\<lambda>r. FieldJSONTag (fst r) (snd r)) (retagRules ''*'' (retags op)) @
       map (\<lambda>r. FieldGORMTag (fst r) (snd r)) (gormRules ''*'' (reGromTags op)) @
       map FieldIgnore (ignoreRules ''*'' (ignore op)) \<and>
     (\<forall>T. map_of (retagopt orm') T =
        (if T = ''*'' \<or> retagRules T (retags op) = [] then None
         else Some (retagRules T (retags op)))) \<and>
     regormtag orm' = [] \<and>
     (\<forall>T. map_of (ignoreopt orm') T =
        (if T = ''*'' \<or> ignoreRules T (ignore op) = [] then None
         else Some (concat (ignoreRules T (ignore op))))) \<and>
     (\<forall>k. map_of (globalTypes orm') k = map_of (rev (typeRules ''*'' (dataTypeEntries op))) k) \<and>
     (globalTypes orm' = [] \<longleftrightarrow> typeRules ''*'' (dataTypeEntries op) = []) \<and>
     (\<forall>T. map_of (types orm') T = None \<longleftrightarrow> T = ''*'' \<or> typeRules T (dataTypeEntries op) = []) \<and>
     (\<forall>T k. lookup2 (types orm') T k =
        (if T = ''*'' then None else map_of (rev (typeRules T (dataTypeEntries op))) k)) \<and>
     structs orm' = [] \<and> console orm' = []"

definition formatError ::
  "('fn, 'api) OrmOption \<Rightarrow> ('fn, 'api) GenCall list option \<Rightarrow> error option" where
  "formatError op gen =
     (case find (\<lambda>d. length (strings_Split d ''->'') \<noteq> 3) (retags op) of
        Some d \<Rightarrow> Some (ErrorsNew (''invalid retag format: '' @ d))
      | None \<Rightarrow>
     (case find (\<lambda>d. length (strings_Split d ''->'') \<noteq> 3) (reGromTags op) of
        Some d \<Rightarrow> Some (ErrorsNew (''invalid retag format: '' @ d))
      | None \<Rightarrow>
     (case find (\<lambda>d. length (strings_Split d ''->'') \<noteq> 2) (ignore op) of
        Some d \<Rightarrow> Some (ErrorsNew (''invalid ignore format: '' @ d))
      | None \<Rightarrow>
     if rename op \<noteq> [] \<and> gen = None then Some NilDereference
     else
     (case find (\<lambda>d. length (strings_Split d ''->'') \<noteq> 2) (map fst (dataTypeEntries op)) of
        Some d \<Rightarrow> Some (ErrorsNew (''invalid data type mapping format: '' @ d))
      | None \<Rightarrow> None))))"

text \<open>What a call leaves alone: the options, the structs, the console and the trace.\<close>

definition keeps :: "('fn, 'api) Orm \<Rightarrow> ('fn, 'api) Orm \<Rightarrow> bool" where
  "keeps a b \<longleftrightarrow>
     opt b = opt a \<and> structs b = structs a \<and> console b = console a \<and>
     generator b = generator a"

text \<open>
  Reading a trace: the table and the options of a \<open>GenerateModel\<close> or
  \<open>GenerateModelAs\<close> call (the table whose options \<open>model\<close> resolved, \<open>vals[0]\<close>, is
  the first argument of the former and the second of the latter, as \<open>model\<close> passes
  them), and the function of a \<open>WithJSONTagNameStrategy\<close> call.
\<close>

fun genModelCall :: "('fn, 'api) GenCall \<Rightarrow> (string \<times> ModelOpt list) option" where
  "genModelCall (GenerateModel tableName opts) = Some (tableName, opts)"
| "genModelCall (GenerateModelAs arg1 arg2 opts) = Some (arg2, opts)"
| "genModelCall _ = None"

fun jsonTagNS :: "('fn, 'api) GenCall \<Rightarrow> (string \<Rightarrow> string) option" where
  "jsonTagNS (WithJSONTagNameStrategy ns) = Some ns"
| "jsonTagNS _ = None"

text \<open>
  The entries of the table list that \<open>model\<close> does not skip, and the calls that the
  loop is expected to make for them, one after the other, when it starts with the
  slice \<open>opts\<close>: each table with the slice grown by its own options.
\<close>

definition validTables :: "string list \<Rightarrow> string list" where
  "validTables tables = filter (\<lambda>val. \<not> length (strings_Split val ''@'') > 2) tables"

fun modelCalls ::
  "('fn, 'api) Orm \<Rightarrow> ModelOpt list \<Rightarrow> string list \<Rightarrow> (string \<times> ModelOpt list) list" where
  "modelCalls orm opts [] = []"
| "modelCalls orm opts (val # rest) =
     (strings_Split val ''@'' ! 0, opts @ fst (optByTable orm (strings_Split val ''@'' ! 0))) #
     modelCalls orm (opts @ fst (optByTable orm (strings_Split val ''@'' ! 0))) rest"

text \<open>Two states with the same rule maps, and a state whose trace extends another's.\<close>

definition sameRules :: "('fn, 'api) Orm \<Rightarrow> ('fn, 'api) Orm \<Rightarrow> bool" where
  "sameRules a b \<longleftrightarrow>
     opt b = opt a \<and> ignoreopt b = ignoreopt a \<and> retagopt b = retagopt a \<and>
     regormtag b = regormtag a \<and> types b = types a \<and> globalTypes b = globalTypes a \<and>
     global b = global a"

definition stepsTo :: "('fn, 'api) Orm \<Rightarrow> ('fn, 'api) GenCall list \<Rightarrow> ('fn, 'api) Orm \<Rightarrow> bool" where
  "stepsTo a ext b \<longleftrightarrow>
     sameRules a b \<and> (\<exists>tr. generator a = Some tr \<and> generator b = Some (tr @ ext))"

text \<open>A state whose trace extends another's by calls that set no JSON tag strategy.\<close>

definition quiet :: "('fn, 'api) Orm \<Rightarrow> ('fn, 'api) Orm \<Rightarrow> bool" where
  "quiet a b \<longleftrightarrow>
     (\<exists>tr ext. generator a = Some tr \<and> generator b = Some (tr @ ext) \<and>
               List.map_filter jsonTagNS ext = [])"

text \<open>
  The directive strings of a configuration that do not split into the expected number
  of segments (three for retag and regrom-tag, two for ignore and the data-type keys),
  in the order in which \<open>formatGlobal\<close> examines them.
\<close>

definition malformedDirectives :: "('fn, 'api) OrmOption \<Rightarrow> string list" where
  "malformedDirectives op =
     filter (\<lambda>d. length (strings_Split d ''->'') \<noteq> 3) (retags op) @
     filter (\<lambda>d. length (strings_Split d ''->'') \<noteq> 3) (reGromTags op) @
     filter (\<lambda>d. length (strings_Split d ''->'') \<noteq> 2) (ignore op) @
     filter (\<lambda>d. length (strings_Split d ''->'') \<noteq> 2) (map fst (dataTypeEntries op))"

text \<open>The trace of the generator as \<open>run\<close> creates it (lines 163-167).\<close>

definition newGenerator :: "('fn, 'api) GenCall list" where
  "newGenerator = [UseDB, WithJSONTagNameStrategy (\<lambda>columnName. columnName @ '',omitempty'')]"

text \<open>
  The map that \<open>optByTable\<close> and \<open>genoptByTable\<close> build for a table (\<open>types_t\<close>, lines
  403-406 and 423-424): the clone of the global map with the table's map copied over it.
\<close>

definition types_t :: "('fn, 'api) Orm \<Rightarrow> string \<Rightarrow> (string \<times> 'fn) list" where
  "types_t orm table =
     (case map_of (types orm) table of
        Some ty \<Rightarrow> AList.merge (globalTypes orm) ty
      | None \<Rightarrow> globalTypes orm)"

section \<open>Properties of the string functions and the loops\<close>

lemma Split_nonempty: "sep \<noteq> [] \<Longrightarrow> strings_Split s sep \<noteq> []"
  by (induction s sep rule: strings_Split.induct) (auto split: list.splits)

lemma Join_Cons_Cons: "strings_Join ((c # p) # ps) sep = c # strings_Join (p # ps) sep"
  by (cases ps) simp_all

lemma Join_Split: "sep \<noteq> [] \<Longrightarrow> strings_Join (strings_Split s sep) sep = s"
proof (induction s sep rule: strings_Split.induct)
  case (1 sep)
  then show ?case by simp
next
  case (2 c cs sep)
  show ?case
  proof (cases "take (length sep) (c # cs) = sep")
    case True
    obtain q qs where q: "strings_Split (drop (length sep) (c # cs)) sep = q # qs"
      using Split_nonempty [OF "2.prems"] by (cases "strings_Split (drop (length sep) (c # cs)) sep") auto
    have "strings_Join (q # qs) sep = drop (length sep) (c # cs)"
      using "2.IH"(1) [OF "2.prems" True] "2.prems" q by simp
    then have "strings_Join ([] # q # qs) sep = sep @ drop (length sep) (c # cs)" by simp
    also have "\<dots> = take (length sep) (c # cs) @ drop (length sep) (c # cs)" using True by simp
    also have "\<dots> = c # cs" by (rule append_take_drop_id)
    finally show ?thesis using True "2.prems" q by simp
  next
    case False
    obtain p ps where p: "strings_Split cs sep = p # ps"
      using Split_nonempty [OF "2.prems"] by (cases "strings_Split cs sep") auto
    have "strings_Join (p # ps) sep = cs"
      using "2.IH"(2) [OF "2.prems" False] "2.prems" p by simp
    then show ?thesis using False "2.prems" p by (simp add: Join_Cons_Cons)
  qed
qed

lemma Split_inj: "sep \<noteq> [] \<Longrightarrow> strings_Split a sep = strings_Split b sep \<Longrightarrow> a = b"
  by (metis Join_Split)

lemma lookupList_update:
  "lookupList (AList.update k v m) k' = (if k' = k then v else lookupList m k')"
  by (simp add: lookupList_def update_conv')

lemma retagsLoop_frame: "\<exists>g. snd (snd (retagsLoop ds m orm)) = orm\<lparr>global := g\<rparr>"
proof (induction ds arbitrary: m orm)
  case Nil
  show ?case by (simp, rule exI [of _ "global orm"], simp)
next
  case (Cons d ds)
  show ?case
  proof (cases "length (strings_Split d ''->'') \<noteq> 3")
    case True
    then show ?thesis by (simp, intro exI [of _ "global orm"], simp)
  next
    case False
    show ?thesis
    proof (cases "strings_Split d ''->'' ! 0 = ''*''")
      case True
      obtain g where "snd (snd (retagsLoop ds m (orm\<lparr>global := global orm @ [FieldJSONTag (strings_Split d ''->'' ! 1) (strings_Split d ''->'' ! 2 @ '',omitempty'')]\<rparr>))) =
         (orm\<lparr>global := global orm @ [FieldJSONTag (strings_Split d ''->'' ! 1) (strings_Split d ''->'' ! 2 @ '',omitempty'')]\<rparr>)\<lparr>global := g\<rparr>"
        using Cons.IH by blast
      then show ?thesis using False True by (simp add: Let_def) blast
    next
      case F2: False
      then show ?thesis using False Cons.IH by (simp add: Let_def)
    qed
  qed
qed

lemma retagsLoop_ok:
  "\<forall>d\<in>set ds. length (strings_Split d ''->'') = 3 \<Longrightarrow>
   \<exists>m'. retagsLoop ds m orm =
          (None, m', orm\<lparr>global := global orm @
                       map (\<lambda>r. FieldJSONTag (fst r) (snd r)) (retagRules ''*'' ds)\<rparr>)
      \<and> (\<forall>T. map_of m' T =
            (if T = ''*'' \<or> retagRules T ds = [] then map_of m T
             else Some (lookupList m T @ retagRules T ds)))"
proof (induction ds arbitrary: m orm)
  case Nil
  then show ?case by (simp add: retagRules_def)
next
  case (Cons d ds)
  let ?p = "strings_Split d ''->''"
  have len: "length ?p = 3" and rest: "\<forall>d\<in>set ds. length (strings_Split d ''->'') = 3"
    using Cons.prems by simp_all
  show ?case
  proof (cases "?p ! 0 = ''*''")
    case True
    let ?orm1 = "orm\<lparr>global := global orm @ [FieldJSONTag (?p ! 1) (?p ! 2 @ '',omitempty'')]\<rparr>"
    obtain m' where m': "retagsLoop ds m ?orm1 =
          (None, m', ?orm1\<lparr>global := global ?orm1 @
                       map (\<lambda>r. FieldJSONTag (fst r) (snd r)) (retagRules ''*'' ds)\<rparr>)"
      and look: "\<forall>T. map_of m' T =
            (if T = ''*'' \<or> retagRules T ds = [] then map_of m T
             else Some (lookupList m T @ retagRules T ds))"
      using Cons.IH [OF rest, of m ?orm1] by blast
    have r1: "retagRules ''*'' (d # ds) = (?p ! 1, ?p ! 2 @ '',omitempty'') # retagRules ''*'' ds"
      using True by (simp add: retagRules_def)
    have r2: "\<And>T. T \<noteq> ''*'' \<Longrightarrow> retagRules T (d # ds) = retagRules T ds"
      using True by (simp add: retagRules_def)
    have "retagsLoop (d # ds) m orm = retagsLoop ds m ?orm1"
      using len True by (simp add: Let_def)
    then show ?thesis using m' look r1 r2 by (intro exI [of _ m']) auto
  next
    case False
    let ?m1 = "AList.update (?p ! 0) (lookupList m (?p ! 0) @ [(?p ! 1, ?p ! 2 @ '',omitempty'')]) m"
    obtain m' where m': "retagsLoop ds ?m1 orm =
          (None, m', orm\<lparr>global := global orm @
                       map (\<lambda>r. FieldJSONTag (fst r) (snd r)) (retagRules ''*'' ds)\<rparr>)"
      and look: "\<forall>T. map_of m' T =
            (if T = ''*'' \<or> retagRules T ds = [] then map_of ?m1 T
             else Some (lookupList ?m1 T @ retagRules T ds))"
      using Cons.IH [OF rest, of ?m1 orm] by blast
    have r1: "retagRules ''*'' (d # ds) = retagRules ''*'' ds"
      using False by (simp add: retagRules_def)
    have r2: "retagRules (?p ! 0) (d # ds) = (?p ! 1, ?p ! 2 @ '',omitempty'') # retagRules (?p ! 0) ds"
      by (simp add: retagRules_def)
    have r3: "\<And>T. T \<noteq> ?p ! 0 \<Longrightarrow> retagRules T (d # ds) = retagRules T ds"
      by (auto simp add: retagRules_def)
    have step: "retagsLoop (d # ds) m orm = retagsLoop ds ?m1 orm"
      using len False by (simp add: Let_def)
    have "map_of m' T =
            (if T = ''*'' \<or> retagRules T (d # ds) = [] then map_of m T
             else Some (lookupList m T @ retagRules T (d # ds)))" for T
    proof (cases "T = ?p ! 0")
      case True
      then show ?thesis using look False r2
        by (simp add: lookupList_update update_conv' lookupList_def split: option.splits)
    next
      case F: False
      then show ?thesis using look r3 [OF F]
        by (simp add: lookupList_update update_conv')
    qed
    then show ?thesis using step m' r1 by (intro exI [of _ m']) simp
  qed
qed

lemma retagsLoop_err:
  "find (\<lambda>d. length (strings_Split d ''->'') \<noteq> 3) ds = Some d \<Longrightarrow>
   fst (retagsLoop ds m orm) = Some (ErrorsNew (''invalid retag format: '' @ d))"
  by (induction ds arbitrary: m orm) (auto simp add: Let_def split: if_splits)

lemma reGromTagsLoop_frame: "\<exists>g. snd (snd (reGromTagsLoop ds rm rg orm)) = orm\<lparr>global := g\<rparr>"
proof (induction ds arbitrary: rg orm)
  case Nil
  show ?case by (simp, rule exI [of _ "global orm"], simp)
next
  case (Cons d ds)
  show ?case
  proof (cases "length (strings_Split d ''->'') \<noteq> 3")
    case True
    then show ?thesis by (simp, intro exI [of _ "global orm"], simp)
  next
    case False
    show ?thesis
    proof (cases "strings_Split d ''->'' ! 0 = ''*''")
      case True
      obtain g where "snd (snd (reGromTagsLoop ds rm rg (orm\<lparr>global := global orm @ [FieldGORMTag (strings_Split d ''->'' ! 1) (strings_Split d ''->'' ! 2)]\<rparr>))) =
         (orm\<lparr>global := global orm @ [FieldGORMTag (strings_Split d ''->'' ! 1) (strings_Split d ''->'' ! 2)]\<rparr>)\<lparr>global := g\<rparr>"
        using Cons.IH by blast
      then show ?thesis using False True by (simp add: Let_def) blast
    next
      case F2: False
      then show ?thesis using False Cons.IH by (simp add: Let_def)
    qed
  qed
qed

lemma reGromTagsLoop_ok:
  "\<forall>d\<in>set ds. length (strings_Split d ''->'') = 3 \<Longrightarrow>
   \<exists>rg'. reGromTagsLoop ds rm rg orm =
          (None, rg', orm\<lparr>global := global orm @
                       map (\<lambda>r. FieldGORMTag (fst r) (snd r)) (gormRules ''*'' ds)\<rparr>)"
proof (induction ds arbitrary: rg orm)
  case Nil
  then show ?case by (simp add: gormRules_def)
next
  case (Cons d ds)
  let ?p = "strings_Split d ''->''"
  have len: "length ?p = 3" and rest: "\<forall>d\<in>set ds. length (strings_Split d ''->'') = 3"
    using Cons.prems by simp_all
  show ?case
  proof (cases "?p ! 0 = ''*''")
    case True
    let ?orm1 = "orm\<lparr>global := global orm @ [FieldGORMTag (?p ! 1) (?p ! 2)]\<rparr>"
    obtain rg' where rg': "reGromTagsLoop ds rm rg ?orm1 =
          (None, rg', ?orm1\<lparr>global := global ?orm1 @
                       map (\<lambda>r. FieldGORMTag (fst r) (snd r)) (gormRules ''*'' ds)\<rparr>)"
      using Cons.IH [OF rest, of rg ?orm1] by blast
    have r1: "gormRules ''*'' (d # ds) = (?p ! 1, ?p ! 2) # gormRules ''*'' ds"
      using True by (simp add: gormRules_def)
    have "reGromTagsLoop (d # ds) rm rg orm = reGromTagsLoop ds rm rg ?orm1"
      using len True by (simp add: Let_def)
    then show ?thesis using rg' r1 by (intro exI [of _ rg']) auto
  next
    case False
    have r1: "gormRules ''*'' (d # ds) = gormRules ''*'' ds"
      using False by (simp add: gormRules_def)
    show ?thesis using len False r1 Cons.IH [OF rest] by (simp add: Let_def)
  qed
qed

lemma reGromTagsLoop_err:
  "find (\<lambda>d. length (strings_Split d ''->'') \<noteq> 3) ds = Some d \<Longrightarrow>
   fst (reGromTagsLoop ds rm rg orm) = Some (ErrorsNew (''invalid retag format: '' @ d))"
  by (induction ds arbitrary: rg orm) (auto simp add: Let_def split: if_splits)

lemma ignoreLoop_frame: "\<exists>g io. snd (ignoreLoop ds orm) = orm\<lparr>ignoreopt := io, global := g\<rparr>"
proof (induction ds arbitrary: orm)
  case Nil
  show ?case by (simp, rule exI [of _ "global orm"], rule exI [of _ "ignoreopt orm"], simp)
next
  case (Cons d ds)
  show ?case
  proof (cases "length (strings_Split d ''->'') \<noteq> 2")
    case True
    then show ?thesis by (simp, intro exI [of _ "global orm"] exI [of _ "ignoreopt orm"], simp)
  next
    case False
    show ?thesis
    proof (cases "strings_Split d ''->'' ! 0 = ''*''")
      case True
      let ?orm1 = "orm\<lparr>global := global orm @ [FieldIgnore (strings_Split (strings_Split d ''->'' ! 1) '','')]\<rparr>"
      obtain g io where "snd (ignoreLoop ds ?orm1) = ?orm1\<lparr>ignoreopt := io, global := g\<rparr>"
        using Cons.IH by blast
      then show ?thesis using False True by (simp add: Let_def) blast
    next
      case F2: False
      let ?orm1 = "orm\<lparr>ignoreopt := AList.update (strings_Split d ''->'' ! 0)
           (lookupList (ignoreopt orm) (strings_Split d ''->'' ! 0) @ strings_Split (strings_Split d ''->'' ! 1) '','') (ignoreopt orm)\<rparr>"
      obtain g io where "snd (ignoreLoop ds ?orm1) = ?orm1\<lparr>ignoreopt := io, global := g\<rparr>"
        using Cons.IH by blast
      then show ?thesis using False F2 by (simp add: Let_def) blast
    qed
  qed
qed

lemma ignoreRules_concat_Nil:
  "concat (ignoreRules T ds) = [] \<longleftrightarrow> ignoreRules T ds = []"
  by (auto simp add: ignoreRules_def Split_nonempty filter_empty_conv)

lemma ignoreLoop_ok:
  "\<forall>d\<in>set ds. length (strings_Split d ''->'') = 2 \<Longrightarrow>
   \<exists>io. ignoreLoop ds orm =
          (None, orm\<lparr>ignoreopt := io,
                     global := global orm @ map FieldIgnore (ignoreRules ''*'' ds)\<rparr>)
      \<and> (\<forall>T. map_of io T =
            (if T = ''*'' \<or> ignoreRules T ds = [] then map_of (ignoreopt orm) T
             else Some (lookupList (ignoreopt orm) T @ concat (ignoreRules T ds))))"
proof (induction ds arbitrary: orm)
  case Nil
  show ?case by (rule exI [of _ "ignoreopt orm"]) (simp add: ignoreRules_def)
next
  case (Cons d ds)
  let ?p = "strings_Split d ''->''"
  let ?f = "strings_Split (?p ! 1) '',''"
  have len: "length ?p = 2" and rest: "\<forall>d\<in>set ds. length (strings_Split d ''->'') = 2"
    using Cons.prems by simp_all
  show ?case
  proof (cases "?p ! 0 = ''*''")
    case True
    let ?orm1 = "orm\<lparr>global := global orm @ [FieldIgnore ?f]\<rparr>"
    obtain io where io: "ignoreLoop ds ?orm1 =
          (None, ?orm1\<lparr>ignoreopt := io,
                       global := global ?orm1 @ map FieldIgnore (ignoreRules ''*'' ds)\<rparr>)"
      and look: "\<forall>T. map_of io T =
            (if T = ''*'' \<or> ignoreRules T ds = [] then map_of (ignoreopt ?orm1) T
             else Some (lookupList (ignoreopt ?orm1) T @ concat (ignoreRules T ds)))"
      using Cons.IH [OF rest, of ?orm1] by blast
    have r1: "ignoreRules ''*'' (d # ds) = ?f # ignoreRules ''*'' ds"
      using True by (simp add: ignoreRules_def)
    have r2: "\<And>T. T \<noteq> ''*'' \<Longrightarrow> ignoreRules T (d # ds) = ignoreRules T ds"
      using True by (simp add: ignoreRules_def)
    have "ignoreLoop (d # ds) orm = ignoreLoop ds ?orm1"
      using len True by (simp add: Let_def)
    then show ?thesis using io look r1 r2 by (intro exI [of _ io]) auto
  next
    case False
    let ?io1 = "AList.update (?p ! 0) (lookupList (ignoreopt orm) (?p ! 0) @ ?f) (ignoreopt orm)"
    let ?orm1 = "orm\<lparr>ignoreopt := ?io1\<rparr>"
    obtain io where io: "ignoreLoop ds ?orm1 =
          (None, ?orm1\<lparr>ignoreopt := io,
                       global := global ?orm1 @ map FieldIgnore (ignoreRules ''*'' ds)\<rparr>)"
      and look: "\<forall>T. map_of io T =
            (if T = ''*'' \<or> ignoreRules T ds = [] then map_of (ignoreopt ?orm1) T
             else Some (lookupList (ignoreopt ?orm1) T @ concat (ignoreRules T ds)))"
      using Cons.IH [OF rest, of ?orm1] by blast
    have r1: "ignoreRules ''*'' (d # ds) = ignoreRules ''*'' ds"
      using False by (simp add: ignoreRules_def)
    have r2: "ignoreRules (?p ! 0) (d # ds) = ?f # ignoreRules (?p ! 0) ds"
      by (simp add: ignoreRules_def)
    have r3: "\<And>T. T \<noteq> ?p ! 0 \<Longrightarrow> ignoreRules T (d # ds) = ignoreRules T ds"
      by (auto simp add: ignoreRules_def)
    have step: "ignoreLoop (d # ds) orm = ignoreLoop ds ?orm1"
      using len False by (simp add: Let_def)
    have "map_of io T =
            (if T = ''*'' \<or> ignoreRules T (d # ds) = [] then map_of (ignoreopt orm) T
             else Some (lookupList (ignoreopt orm) T @ concat (ignoreRules T (d # ds))))" for T
    proof (cases "T = ?p ! 0")
      case True
      then show ?thesis using look False r2
        by (simp add: lookupList_update update_conv' lookupList_def ignoreRules_concat_Nil [symmetric] split: option.splits)
    next
      case F: False
      then show ?thesis using look r3 [OF F]
        by (simp add: lookupList_update update_conv')
    qed
    then show ?thesis using step io r1 by (intro exI [of _ io]) simp
  qed
qed

lemma ignoreLoop_err:
  "find (\<lambda>d. length (strings_Split d ''->'') \<noteq> 2) ds = Some d \<Longrightarrow>
   fst (ignoreLoop ds orm) = Some (ErrorsNew (''invalid ignore format: '' @ d))"
  by (induction ds arbitrary: orm) (auto simp add: Let_def split: if_splits)

lemma lookup2_update:
  "lookup2 (AList.update T inner m) T' k = (if T' = T then map_of inner k else lookup2 m T' k)"
  by (simp add: lookup2_def update_conv')

lemma map_of_rev_Cons:
  "map_of (rev (x # xs)) k = (case map_of (rev xs) k of Some v \<Rightarrow> Some v | None \<Rightarrow> map_of [x] k)"
  by (simp add: map_add_def split: option.splits)

lemma dataTypeLoop_frame: "\<exists>ty gt. snd (dataTypeLoop dt orm) = orm\<lparr>types := ty, globalTypes := gt\<rparr>"
proof (induction dt arbitrary: orm)
  case Nil
  show ?case by (simp, rule exI [of _ "types orm"], rule exI [of _ "globalTypes orm"], simp)
next
  case (Cons kv dt)
  obtain key tf where kv: "kv = (key, tf)" by (cases kv)
  show ?case
  proof (cases "length (strings_Split key ''->'') \<noteq> 2")
    case True
    then show ?thesis unfolding kv by (simp, intro exI [of _ "types orm"] exI [of _ "globalTypes orm"], simp)
  next
    case False
    show ?thesis
    proof (cases "strings_Split key ''->'' ! 0 = ''*''")
      case True
      let ?orm1 = "orm\<lparr>globalTypes := AList.update (strings_Split key ''->'' ! 1) tf (globalTypes orm)\<rparr>"
      obtain ty gt where "snd (dataTypeLoop dt ?orm1) = ?orm1\<lparr>types := ty, globalTypes := gt\<rparr>"
        using Cons.IH by blast
      then show ?thesis using False True unfolding kv by (simp add: Let_def) blast
    next
      case F2: False
      let ?orm1 = "orm\<lparr>types := AList.update (strings_Split key ''->'' ! 0)
                    (AList.update (strings_Split key ''->'' ! 1) tf (lookupList (types orm) (strings_Split key ''->'' ! 0)))
                    (types orm)\<rparr>"
      obtain ty gt where "snd (dataTypeLoop dt ?orm1) = ?orm1\<lparr>types := ty, globalTypes := gt\<rparr>"
        using Cons.IH by blast
      then show ?thesis using False F2 unfolding kv by (simp add: Let_def) blast
    qed
  qed
qed

lemma lookup2_lookupList: "lookup2 m T k = map_of (lookupList m T) k"
  by (simp add: lookup2_def lookupList_def split: option.splits)

lemma dataTypeLoop_ok:
  "\<forall>kv\<in>set dt. length (strings_Split (fst kv) ''->'') = 2 \<Longrightarrow>
   \<exists>ty gt. dataTypeLoop dt orm = (None, orm\<lparr>types := ty, globalTypes := gt\<rparr>)
      \<and> (\<forall>k. map_of gt k =
            (case map_of (rev (typeRules ''*'' dt)) k of
               Some v \<Rightarrow> Some v | None \<Rightarrow> map_of (globalTypes orm) k))
      \<and> (gt = [] \<longleftrightarrow> globalTypes orm = [] \<and> typeRules ''*'' dt = [])
      \<and> (\<forall>T. map_of ty T = None \<longleftrightarrow>
               map_of (types orm) T = None \<and> (T = ''*'' \<or> typeRules T dt = []))
      \<and> (\<forall>T k. lookup2 ty T k =
            (if T = ''*'' then lookup2 (types orm) T k
             else case map_of (rev (typeRules T dt)) k of
                    Some v \<Rightarrow> Some v | None \<Rightarrow> lookup2 (types orm) T k))"
proof (induction dt arbitrary: orm)
  case Nil
  show ?case
    by (rule exI [of _ "types orm"], rule exI [of _ "globalTypes orm"]) (simp add: typeRules_def)
next
  case (Cons kv dt)
  obtain key tf where kv: "kv = (key, tf)" by (cases kv)
  let ?p = "strings_Split key ''->''"
  have len: "length ?p = 2"
    and rest: "\<forall>kv\<in>set dt. length (strings_Split (fst kv) ''->'') = 2"
    using Cons.prems kv by simp_all
  show ?case
  proof (cases "?p ! 0 = ''*''")
    case True
    let ?gt1 = "AList.update (?p ! 1) tf (globalTypes orm)"
    let ?orm1 = "orm\<lparr>globalTypes := ?gt1\<rparr>"
    obtain ty gt where run: "dataTypeLoop dt ?orm1 = (None, ?orm1\<lparr>types := ty, globalTypes := gt\<rparr>)"
      and g1: "\<forall>k. map_of gt k =
            (case map_of (rev (typeRules ''*'' dt)) k of
               Some v \<Rightarrow> Some v | None \<Rightarrow> map_of (globalTypes ?orm1) k)"
      and g2: "gt = [] \<longleftrightarrow> globalTypes ?orm1 = [] \<and> typeRules ''*'' dt = []"
      and t1: "\<forall>T. map_of ty T = None \<longleftrightarrow>
               map_of (types ?orm1) T = None \<and> (T = ''*'' \<or> typeRules T dt = [])"
      and t2: "\<forall>T k. lookup2 ty T k =
            (if T = ''*'' then lookup2 (types ?orm1) T k
             else case map_of (rev (typeRules T dt)) k of
                    Some v \<Rightarrow> Some v | None \<Rightarrow> lookup2 (types ?orm1) T k)"
      using Cons.IH [OF rest, of ?orm1] by (elim exE conjE) (rule that)
    have r1: "typeRules ''*'' (kv # dt) = (?p ! 1, tf) # typeRules ''*'' dt"
      using True kv by (simp add: typeRules_def)
    have r2: "\<And>T. T \<noteq> ''*'' \<Longrightarrow> typeRules T (kv # dt) = typeRules T dt"
      using True kv by (simp add: typeRules_def)
    have step: "dataTypeLoop (kv # dt) orm = dataTypeLoop dt ?orm1"
      using len True kv by (simp add: Let_def)
    have c1: "\<forall>k. map_of gt k =
            (case map_of (rev (typeRules ''*'' (kv # dt))) k of
               Some v \<Rightarrow> Some v | None \<Rightarrow> map_of (globalTypes orm) k)"
      using g1 unfolding r1 map_of_rev_Cons
      by (auto simp add: update_conv' split: option.splits)
    have c2: "gt = [] \<longleftrightarrow> globalTypes orm = [] \<and> typeRules ''*'' (kv # dt) = []"
      using g2 r1 by simp
    have c3: "map_of ty T = None \<longleftrightarrow>
               map_of (types orm) T = None \<and> (T = ''*'' \<or> typeRules T (kv # dt) = [])" for T
    proof (cases "T = ''*''")
      case T: True
      then show ?thesis using t1 by simp
    next
      case F: False
      then show ?thesis using t1 r2 [OF F] by simp
    qed
    have c4: "lookup2 ty T k =
            (if T = ''*'' then lookup2 (types orm) T k
             else case map_of (rev (typeRules T (kv # dt))) k of
                    Some v \<Rightarrow> Some v | None \<Rightarrow> lookup2 (types orm) T k)" for T k
    proof (cases "T = ''*''")
      case T: True
      then show ?thesis using t2 [rule_format, of T k] by simp
    next
      case F: False
      have "types ?orm1 = types orm" by simp
      then show ?thesis using F t2 [rule_format, of T k] r2 [OF F]
        by (simp cong: option.case_cong)
    qed
    show ?thesis
      using step run c1 c2 c3 c4
      by (intro exI [of _ ty] exI [of _ gt]) simp
  next
    case False
    let ?in1 = "AList.update (?p ! 1) tf (lookupList (types orm) (?p ! 0))"
    let ?ty1 = "AList.update (?p ! 0) ?in1 (types orm)"
    let ?orm1 = "orm\<lparr>types := ?ty1\<rparr>"
    obtain ty gt where run: "dataTypeLoop dt ?orm1 = (None, ?orm1\<lparr>types := ty, globalTypes := gt\<rparr>)"
      and g1: "\<forall>k. map_of gt k =
            (case map_of (rev (typeRules ''*'' dt)) k of
               Some v \<Rightarrow> Some v | None \<Rightarrow> map_of (globalTypes ?orm1) k)"
      and g2: "gt = [] \<longleftrightarrow> globalTypes ?orm1 = [] \<and> typeRules ''*'' dt = []"
      and t1: "\<forall>T. map_of ty T = None \<longleftrightarrow>
               map_of (types ?orm1) T = None \<and> (T = ''*'' \<or> typeRules T dt = [])"
      and t2: "\<forall>T k. lookup2 ty T k =
            (if T = ''*'' then lookup2 (types ?orm1) T k
             else case map_of (rev (typeRules T dt)) k of
                    Some v \<Rightarrow> Some v | None \<Rightarrow> lookup2 (types ?orm1) T k)"
      using Cons.IH [OF rest, of ?orm1] by (elim exE conjE) (rule that)
    have r1: "typeRules ''*'' (kv # dt) = typeRules ''*'' dt"
      using False kv by (simp add: typeRules_def)
    have r2: "typeRules (?p ! 0) (kv # dt) = (?p ! 1, tf) # typeRules (?p ! 0) dt"
      using kv by (simp add: typeRules_def)
    have r3: "\<And>T. T \<noteq> ?p ! 0 \<Longrightarrow> typeRules T (kv # dt) = typeRules T dt"
      using kv by (auto simp add: typeRules_def)
    have step: "dataTypeLoop (kv # dt) orm = dataTypeLoop dt ?orm1"
      using len False kv by (simp add: Let_def)
    have c1: "\<forall>k. map_of gt k =
            (case map_of (rev (typeRules ''*'' (kv # dt))) k of
               Some v \<Rightarrow> Some v | None \<Rightarrow> map_of (globalTypes orm) k)"
      using g1 r1 by (simp cong: option.case_cong)
    have c2: "gt = [] \<longleftrightarrow> globalTypes orm = [] \<and> typeRules ''*'' (kv # dt) = []"
      using g2 r1 by simp
    have c3: "map_of ty T = None \<longleftrightarrow>
               map_of (types orm) T = None \<and> (T = ''*'' \<or> typeRules T (kv # dt) = [])" for T
    proof (cases "T = ?p ! 0")
      case True
      then show ?thesis using t1 False r2 by (simp add: update_conv')
    next
      case F: False
      then show ?thesis using t1 r3 [OF F] by (simp add: update_conv')
    qed
    have c4: "lookup2 ty T k =
            (if T = ''*'' then lookup2 (types orm) T k
             else case map_of (rev (typeRules T (kv # dt))) k of
                    Some v \<Rightarrow> Some v | None \<Rightarrow> lookup2 (types orm) T k)" for T k
    proof (cases "T = ?p ! 0")
      case True
      have lk: "lookup2 ?ty1 (?p ! 0) k =
                  (if k = ?p ! 1 then Some tf else lookup2 (types orm) (?p ! 0) k)"
        by (simp add: lookup2_lookupList lookupList_update update_conv')
      have mr: "map_of (rev (typeRules (?p ! 0) (kv # dt))) k =
                  (case map_of (rev (typeRules (?p ! 0) dt)) k of
                     Some v \<Rightarrow> Some v
                   | None \<Rightarrow> if k = ?p ! 1 then Some tf else None)"
        unfolding r2 map_of_rev_Cons by (simp split: option.splits)
      have "types ?orm1 = ?ty1" by simp
      then have ih: "lookup2 ty (?p ! 0) k =
                  (case map_of (rev (typeRules (?p ! 0) dt)) k of
                     Some v \<Rightarrow> Some v
                   | None \<Rightarrow> lookup2 ?ty1 (?p ! 0) k)"
        using t2 [rule_format, of "?p ! 0" k] False by (simp cong: option.case_cong)
      have "lookup2 ty (?p ! 0) k =
              (case map_of (rev (typeRules (?p ! 0) (kv # dt))) k of
                 Some v \<Rightarrow> Some v
               | None \<Rightarrow> lookup2 (types orm) (?p ! 0) k)"
        unfolding ih mr lk by (simp split: option.splits)
      then show ?thesis unfolding True using False by simp
    next
      case F: False
      have e: "lookup2 (types ?orm1) T k = lookup2 (types orm) T k"
        using F by (simp add: lookup2_update)
      show ?thesis using t2 [rule_format, of T k] unfolding e r3 [OF F] .
    qed
    show ?thesis
      using step run c1 c2 c3 c4
      by (intro exI [of _ ty] exI [of _ gt]) simp
  qed
qed

lemma dataTypeLoop_err:
  "find (\<lambda>key. length (strings_Split key ''->'') \<noteq> 2) (map fst dt) = Some d \<Longrightarrow>
   fst (dataTypeLoop dt orm) = Some (ErrorsNew (''invalid data type mapping format: '' @ d))"
  by (induction dt arbitrary: orm) (auto simp add: Let_def split: if_splits)

lemma formatGlobal_ok:
  assumes st: "o0 = \<lparr> opt = op, generator = gen, retagopt = [], regormtag = [], ignoreopt = [],
                      types = [], globalTypes = [], global = [], structs = [], console = [] \<rparr>"
    and wf: "wellFormed op" and gen: "rename op = [] \<or> gen \<noteq> None"
  shows "\<exists>orm'. formatGlobal o0 = (None, orm') \<and> resolved op gen orm'"
proof -
  have f0: "opt o0 = op" "generator o0 = gen" "global o0 = []" "retagopt o0 = []"
    "regormtag o0 = []" "ignoreopt o0 = []" "types o0 = []" "globalTypes o0 = []"
    "structs o0 = []" "console o0 = []"
    by (simp_all add: st)
  have wf1: "\<forall>d\<in>set (retags (opt o0)). length (strings_Split d ''->'') = 3"
    and wf2: "\<forall>d\<in>set (reGromTags op). length (strings_Split d ''->'') = 3"
    and wf3: "\<forall>d\<in>set (ignore op). length (strings_Split d ''->'') = 2"
    and wf4: "\<forall>kv\<in>set (dataTypeEntries op). length (strings_Split (fst kv) ''->'') = 2"
    using wf f0 by (simp_all add: wellFormed_def)
  obtain m' where l1: "retagsLoop (retags (opt o0)) [] o0 = (None, m', o0\<lparr>global := global o0 @
      map (\<lambda>r. FieldJSONTag (fst r) (snd r)) (retagRules ''*'' (retags (opt o0)))\<rparr>)"
    and m1: "\<forall>T. map_of m' T =
            (if T = ''*'' \<or> retagRules T (retags (opt o0)) = [] then map_of [] T
             else Some (lookupList [] T @ retagRules T (retags (opt o0))))"
    using retagsLoop_ok [OF wf1, of "[]" o0] by (elim exE conjE) (rule that)
  define o1 where "o1 = o0\<lparr>global := global o0 @
      map (\<lambda>r. FieldJSONTag (fst r) (snd r)) (retagRules ''*'' (retags (opt o0)))\<rparr>"
  define o2 where "o2 = o1\<lparr>retagopt := m'\<rparr>"
  have f2: "opt o2 = op" by (simp add: o2_def o1_def f0)
  have wf2': "\<forall>d\<in>set (reGromTags (opt o2)). length (strings_Split d ''->'') = 3"
    using wf2 f2 by simp
  obtain rg where l2: "reGromTagsLoop (reGromTags (opt o2)) m' [] o2 = (None, rg, o2\<lparr>global := global o2 @
      map (\<lambda>r. FieldGORMTag (fst r) (snd r)) (gormRules ''*'' (reGromTags (opt o2)))\<rparr>)"
    using reGromTagsLoop_ok [OF wf2', of m' "[]" o2] by (elim exE) (rule that)
  define o3 where "o3 = o2\<lparr>global := global o2 @
      map (\<lambda>r. FieldGORMTag (fst r) (snd r)) (gormRules ''*'' (reGromTags (opt o2)))\<rparr>"
  have f3: "opt o3 = op" by (simp add: o3_def f2)
  have wf3': "\<forall>d\<in>set (ignore (opt o3)). length (strings_Split d ''->'') = 2"
    using wf3 f3 by simp
  obtain io where l3: "ignoreLoop (ignore (opt o3)) o3 =
      (None, o3\<lparr>ignoreopt := io, global := global o3 @ map FieldIgnore (ignoreRules ''*'' (ignore (opt o3)))\<rparr>)"
    and i3: "\<forall>T. map_of io T =
            (if T = ''*'' \<or> ignoreRules T (ignore (opt o3)) = [] then map_of (ignoreopt o3) T
             else Some (lookupList (ignoreopt o3) T @ concat (ignoreRules T (ignore (opt o3)))))"
    using ignoreLoop_ok [OF wf3', of o3] by (elim exE conjE) (rule that)
  define o4 where "o4 = o3\<lparr>ignoreopt := io, global := global o3 @ map FieldIgnore (ignoreRules ''*'' (ignore (opt o3)))\<rparr>"
  have f4: "opt o4 = op" "generator o4 = gen" by (simp_all add: o4_def o3_def o2_def o1_def f0)
  define o5 where "o5 = (if rename op = [] then o4
     else o4\<lparr>generator := map_option (\<lambda>tr. tr @ [WithFileNameStrategy (fileNameStrategy (rename op))]) gen\<rparr>)"
  have l4: "(if length (rename (opt o4)) > 0
             then genCall (WithFileNameStrategy (fileNameStrategy (rename (opt o4)))) o4
             else (None, o4)) = (None, o5)"
    using gen by (auto simp add: o5_def f4 genCall_def)
  have f5: "opt o5 = op" by (simp add: o5_def f4)
  obtain ty gt where d5: "dataTypeLoop (dataTypeEntries op) o5 = (None, o5\<lparr>types := ty, globalTypes := gt\<rparr>)"
      and g1: "\<forall>k. map_of gt k =
            (case map_of (rev (typeRules ''*'' (dataTypeEntries op))) k of
               Some v \<Rightarrow> Some v | None \<Rightarrow> map_of (globalTypes o5) k)"
      and g2: "gt = [] \<longleftrightarrow> globalTypes o5 = [] \<and> typeRules ''*'' (dataTypeEntries op) = []"
      and t1: "\<forall>T. map_of ty T = None \<longleftrightarrow>
               map_of (types o5) T = None \<and> (T = ''*'' \<or> typeRules T (dataTypeEntries op) = [])"
      and t2: "\<forall>T k. lookup2 ty T k =
            (if T = ''*'' then lookup2 (types o5) T k
             else case map_of (rev (typeRules T (dataTypeEntries op))) k of
                    Some v \<Rightarrow> Some v | None \<Rightarrow> lookup2 (types o5) T k)"
    using dataTypeLoop_ok [OF wf4, of o5] by (elim exE conjE) (rule that)
  define o6 where "o6 = o5\<lparr>types := ty, globalTypes := gt\<rparr>"
  have l5: "(case dataType (opt o5) of None \<Rightarrow> (None, o5) | Some dt \<Rightarrow> dataTypeLoop dt o5) = (None, o6)"
  proof (cases "dataType op")
    case None
    then have "dataTypeEntries op = []" by (simp add: dataTypeEntries_def)
    then have "o5\<lparr>types := ty, globalTypes := gt\<rparr> = o5" using d5 by simp
    then show ?thesis using None f5 by (simp add: o6_def)
  next
    case (Some dt)
    then have "dataTypeEntries op = dt" by (simp add: dataTypeEntries_def)
    then show ?thesis using Some f5 d5 by (simp add: o6_def)
  qed
  have run: "formatGlobal o0 = (None, o6)"
    unfolding formatGlobal_def l1 prod.case option.case Let_def o1_def [symmetric]
      o2_def [symmetric] l2 o3_def [symmetric] l3 o4_def [symmetric] l4 l5 ..
  have e5: "globalTypes o5 = []" "types o5 = []"
    by (simp_all add: o5_def o4_def o3_def o2_def o1_def f0)
  have p1: "opt o6 = op" by (simp add: o6_def f5)
  have p2: "generator o6 =
       (if rename op = [] then gen
        else map_option (\<lambda>tr. tr @ [WithFileNameStrategy (fileNameStrategy (rename op))]) gen)"
    by (simp add: o6_def o5_def f4)
  have p3: "global o6 =
       map (\<lambda>r. FieldJSONTag (fst r) (snd r)) (retagRules ''*'' (retags op)) @
       map (\<lambda>r. FieldGORMTag (fst r) (snd r)) (gormRules ''*'' (reGromTags op)) @
       map FieldIgnore (ignoreRules ''*'' (ignore op))"
    by (simp add: o6_def o5_def o4_def o3_def o2_def o1_def f0)
  have p4: "\<forall>T. map_of (retagopt o6) T =
        (if T = ''*'' \<or> retagRules T (retags op) = [] then None
         else Some (retagRules T (retags op)))"
    using m1 by (simp add: o6_def o5_def o4_def o3_def o2_def f0 lookupList_def)
  have p5: "regormtag o6 = []"
    by (simp add: o6_def o5_def o4_def o3_def o2_def o1_def f0)
  have "ignoreopt o3 = []" "opt o3 = op" by (simp_all add: o3_def o2_def o1_def f0)
  then have p6: "\<forall>T. map_of (ignoreopt o6) T =
        (if T = ''*'' \<or> ignoreRules T (ignore op) = [] then None
         else Some (concat (ignoreRules T (ignore op))))"
    using i3 by (simp add: o6_def o5_def o4_def lookupList_def)
  have p7: "\<forall>k. map_of (globalTypes o6) k = map_of (rev (typeRules ''*'' (dataTypeEntries op))) k"
    using g1 e5 by (simp add: o6_def split: option.splits)
  have p8: "globalTypes o6 = [] \<longleftrightarrow> typeRules ''*'' (dataTypeEntries op) = []"
    using g2 e5 by (simp add: o6_def)
  have p9: "\<forall>T. map_of (types o6) T = None \<longleftrightarrow> T = ''*'' \<or> typeRules T (dataTypeEntries op) = []"
    using t1 e5 by (simp add: o6_def)
  have p10: "\<forall>T k. lookup2 (types o6) T k =
        (if T = ''*'' then None else map_of (rev (typeRules T (dataTypeEntries op))) k)"
    using t2 e5 by (simp add: o6_def lookup2_def split: option.splits)
  have p11: "structs o6 = []" "console o6 = []"
    by (simp_all add: o6_def o5_def o4_def o3_def o2_def o1_def f0)
  have "resolved op gen o6"
    unfolding resolved_def using p1 p2 p3 p4 p5 p6 p7 p8 p9 p10 p11 by blast
  then show ?thesis using run by blast
qed

lemma NewOrmCommand_generator:
  "(NewOrmCommand opts)\<lparr>generator := gen\<rparr> =
     \<lparr> opt = opt (NewOrmCommand opts), generator = gen, retagopt = [], regormtag = [],
       ignoreopt = [], types = [], globalTypes = [], global = [], structs = [], console = [] \<rparr>"
  by (simp add: NewOrmCommand_def)

lemma retagsLoop_fst:
  "fst (retagsLoop ds m orm) =
     map_option (\<lambda>d. ErrorsNew (''invalid retag format: '' @ d))
       (find (\<lambda>d. length (strings_Split d ''->'') \<noteq> 3) ds)"
  by (induction ds arbitrary: m orm) (simp_all add: Let_def)

lemma reGromTagsLoop_fst:
  "fst (reGromTagsLoop ds rm rg orm) =
     map_option (\<lambda>d. ErrorsNew (''invalid retag format: '' @ d))
       (find (\<lambda>d. length (strings_Split d ''->'') \<noteq> 3) ds)"
  by (induction ds arbitrary: rg orm) (simp_all add: Let_def)

lemma ignoreLoop_fst:
  "fst (ignoreLoop ds orm) =
     map_option (\<lambda>d. ErrorsNew (''invalid ignore format: '' @ d))
       (find (\<lambda>d. length (strings_Split d ''->'') \<noteq> 2) ds)"
  by (induction ds arbitrary: orm) (simp_all add: Let_def)

lemma dataTypeLoop_fst:
  "fst (dataTypeLoop dt orm) =
     map_option (\<lambda>d. ErrorsNew (''invalid data type mapping format: '' @ d))
       (find (\<lambda>d. length (strings_Split d ''->'') \<noteq> 2) (map fst dt))"
  by (induction dt arbitrary: orm) (auto simp add: Let_def)

lemma keeps_refl: "keeps a a"
  by (simp add: keeps_def)

lemma keeps_trans: "keeps a b \<Longrightarrow> keeps b c \<Longrightarrow> keeps a c"
  by (simp add: keeps_def)

lemma retagsLoop_keeps: "keeps orm (snd (snd (retagsLoop ds m orm)))"
proof -
  obtain g where "snd (snd (retagsLoop ds m orm)) = orm\<lparr>global := g\<rparr>"
    using retagsLoop_frame by blast
  then show ?thesis by (simp add: keeps_def)
qed

lemma reGromTagsLoop_keeps: "keeps orm (snd (snd (reGromTagsLoop ds rm rg orm)))"
proof -
  obtain g where "snd (snd (reGromTagsLoop ds rm rg orm)) = orm\<lparr>global := g\<rparr>"
    using reGromTagsLoop_frame by blast
  then show ?thesis by (simp add: keeps_def)
qed

lemma ignoreLoop_keeps: "keeps orm (snd (ignoreLoop ds orm))"
proof -
  obtain g io where "snd (ignoreLoop ds orm) = orm\<lparr>ignoreopt := io, global := g\<rparr>"
    using ignoreLoop_frame by blast
  then show ?thesis by (simp add: keeps_def)
qed

lemma dataTypeLoop_keeps: "keeps orm (snd (dataTypeLoop dt orm))"
proof -
  obtain ty gt where "snd (dataTypeLoop dt orm) = orm\<lparr>types := ty, globalTypes := gt\<rparr>"
    using dataTypeLoop_frame by blast
  then show ?thesis by (simp add: keeps_def)
qed

lemma formatGlobal_fst_frame:
  "fst (formatGlobal orm) = formatError (opt orm) (generator orm) \<and>
   (keeps orm (snd (formatGlobal orm)) \<or>
    keeps (orm\<lparr>generator := map_option (\<lambda>tr. tr @
             [WithFileNameStrategy (fileNameStrategy (rename (opt orm)))]) (generator orm)\<rparr>)
      (snd (formatGlobal orm)))"
proof -
  let ?orm' = "orm\<lparr>generator := map_option (\<lambda>tr. tr @
             [WithFileNameStrategy (fileNameStrategy (rename (opt orm)))]) (generator orm)\<rparr>"
  obtain e1 m1 o1 where r1: "retagsLoop (retags (opt orm)) [] orm = (e1, m1, o1)"
    by (rule prod_cases3)
  have e1: "e1 = map_option (\<lambda>d. ErrorsNew (''invalid retag format: '' @ d))
       (find (\<lambda>d. length (strings_Split d ''->'') \<noteq> 3) (retags (opt orm)))"
    using retagsLoop_fst [of "retags (opt orm)" "[]" orm] r1 by simp
  have s1: "keeps orm o1" using retagsLoop_keeps [of orm "retags (opt orm)" "[]"] r1 by simp
  define o2 where "o2 = o1\<lparr>retagopt := m1\<rparr>"
  have s2: "keeps orm o2" using s1 by (simp add: o2_def keeps_def)
  obtain e2 rg o3 where r2: "reGromTagsLoop (reGromTags (opt o2)) m1 [] o2 = (e2, rg, o3)"
    by (rule prod_cases3)
  have op2: "opt o2 = opt orm" using s2 by (simp add: keeps_def)
  have e2: "e2 = map_option (\<lambda>d. ErrorsNew (''invalid retag format: '' @ d))
       (find (\<lambda>d. length (strings_Split d ''->'') \<noteq> 3) (reGromTags (opt orm)))"
    using reGromTagsLoop_fst [of "reGromTags (opt o2)" m1 "[]" o2] r2 op2 by simp
  have "keeps o2 o3"
    using reGromTagsLoop_keeps [of o2 "reGromTags (opt o2)" m1 "[]"] r2 by simp
  then have s3: "keeps orm o3" using s2 keeps_trans by blast
  obtain e3 o4 where r3: "ignoreLoop (ignore (opt o3)) o3 = (e3, o4)"
    by (rule prod.exhaust)
  have op3: "opt o3 = opt orm" using s3 by (simp add: keeps_def)
  have e3: "e3 = map_option (\<lambda>d. ErrorsNew (''invalid ignore format: '' @ d))
       (find (\<lambda>d. length (strings_Split d ''->'') \<noteq> 2) (ignore (opt orm)))"
    using ignoreLoop_fst [of "ignore (opt o3)" o3] r3 op3 by simp
  have "keeps o3 o4"
    using ignoreLoop_keeps [of o3 "ignore (opt o3)"] r3 by simp
  then have s4: "keeps orm o4" using s3 keeps_trans by blast
  have op4: "opt o4 = opt orm" and g4: "generator o4 = generator orm"
    using s4 by (simp_all add: keeps_def)
  obtain e4 o5 where r4: "(if length (rename (opt o4)) > 0
             then genCall (WithFileNameStrategy (fileNameStrategy (rename (opt o4)))) o4
             else (None, o4)) = (e4, o5)"
    by (rule prod.exhaust)
  have e4: "e4 = (if rename (opt orm) \<noteq> [] \<and> generator orm = None then Some NilDereference else None)"
   and s5: "keeps orm o5 \<or> keeps ?orm' o5"
  proof -
    show "e4 = (if rename (opt orm) \<noteq> [] \<and> generator orm = None then Some NilDereference else None)"
    proof (cases "rename (opt orm) = []")
      case True
      then show ?thesis using r4 op4 by simp
    next
      case False
      then show ?thesis using r4 op4 g4 by (cases "generator orm") (auto simp add: genCall_def)
    qed
    show "keeps orm o5 \<or> keeps ?orm' o5"
    proof (cases "rename (opt orm) = []")
      case True
      then show ?thesis using r4 op4 s4 by simp
    next
      case False
      show ?thesis
      proof (cases "generator orm")
        case None
        then show ?thesis using False r4 op4 g4 s4 by (auto simp add: genCall_def)
      next
        case (Some tr)
        then have "o5 = o4\<lparr>generator := Some (tr @ [WithFileNameStrategy (fileNameStrategy (rename (opt orm)))])\<rparr>"
          using False r4 op4 g4 by (auto simp add: genCall_def)
        then have "keeps ?orm' o5" using s4 Some by (simp add: keeps_def)
        then show ?thesis ..
      qed
    qed
  qed
  obtain e5 o6 where r5: "(case dataType (opt o5) of None \<Rightarrow> (None, o5) | Some dt \<Rightarrow> dataTypeLoop dt o5) = (e5, o6)"
    by (rule prod.exhaust)
  have op5: "opt o5 = opt orm" using s5 by (auto simp add: keeps_def)
  have e5: "e5 = map_option (\<lambda>d. ErrorsNew (''invalid data type mapping format: '' @ d))
       (find (\<lambda>d. length (strings_Split d ''->'') \<noteq> 2) (map fst (dataTypeEntries (opt orm))))"
  proof (cases "dataType (opt orm)")
    case None
    then show ?thesis using r5 op5 by (simp add: dataTypeEntries_def)
  next
    case (Some dt)
    then show ?thesis using r5 op5 dataTypeLoop_fst [of dt o5] by (simp add: dataTypeEntries_def)
  qed
  have s56: "keeps o5 o6"
  proof (cases "dataType (opt orm)")
    case None
    then show ?thesis using r5 op5 by (simp add: keeps_refl)
  next
    case (Some dt)
    then show ?thesis using r5 op5 dataTypeLoop_keeps [of o5 dt] by simp
  qed
  have s6: "keeps orm o6 \<or> keeps ?orm' o6"
    using s5 s56 keeps_trans by blast
  have fg: "formatGlobal orm =
     (case e1 of Some err \<Rightarrow> (Some err, o1) | None \<Rightarrow>
      case e2 of Some err \<Rightarrow> (Some err, o3) | None \<Rightarrow>
      case e3 of Some err \<Rightarrow> (Some err, o4) | None \<Rightarrow>
      case e4 of Some err \<Rightarrow> (Some err, o5) | None \<Rightarrow> (e5, o6))"
    unfolding formatGlobal_def r1 prod.case Let_def o2_def [symmetric] r2 r3 r4 r5
    by (cases e1; cases e2; cases e3; cases e4) simp_all
  have a: "fst (formatGlobal orm) = formatError (opt orm) (generator orm)"
  proof -
    have "fst (formatGlobal orm) =
       (case e1 of Some err \<Rightarrow> Some err | None \<Rightarrow>
        case e2 of Some err \<Rightarrow> Some err | None \<Rightarrow>
        case e3 of Some err \<Rightarrow> Some err | None \<Rightarrow>
        case e4 of Some err \<Rightarrow> Some err | None \<Rightarrow> e5)"
      unfolding fg by (cases e1; cases e2; cases e3; cases e4) simp_all
    also have "\<dots> = formatError (opt orm) (generator orm)"
      unfolding formatError_def e1 e2 e3 e4 e5
      by (cases "find (\<lambda>d. length (strings_Split d ''->'') \<noteq> 3) (retags (opt orm))";
          cases "find (\<lambda>d. length (strings_Split d ''->'') \<noteq> 3) (reGromTags (opt orm))";
          cases "find (\<lambda>d. length (strings_Split d ''->'') \<noteq> 2) (ignore (opt orm))";
          cases "find (\<lambda>d. length (strings_Split d ''->'') \<noteq> 2) (map fst (dataTypeEntries (opt orm)))")
         simp_all
    finally show ?thesis .
  qed
  have ks: "keeps orm o1" "keeps orm o3" "keeps orm o4" using s1 s3 s4 .
  have b: "keeps orm (snd (formatGlobal orm)) \<or> keeps ?orm' (snd (formatGlobal orm))"
    unfolding fg using ks s5 s6 by (cases e1; cases e2; cases e3; cases e4) simp_all
  show ?thesis using a b by simp
qed

lemma formatError_None_iff:
  "formatError op gen = None \<longleftrightarrow> wellFormed op \<and> (rename op = [] \<or> gen \<noteq> None)"
proof -
  have "formatError op gen = None \<longleftrightarrow>
      find (\<lambda>d. length (strings_Split d ''->'') \<noteq> 3) (retags op) = None \<and>
      find (\<lambda>d. length (strings_Split d ''->'') \<noteq> 3) (reGromTags op) = None \<and>
      find (\<lambda>d. length (strings_Split d ''->'') \<noteq> 2) (ignore op) = None \<and>
      find (\<lambda>d. length (strings_Split d ''->'') \<noteq> 2) (map fst (dataTypeEntries op)) = None \<and>
      (rename op = [] \<or> gen \<noteq> None)"
    unfolding formatError_def
    by (cases "find (\<lambda>d. length (strings_Split d ''->'') \<noteq> 3) (retags op)";
        cases "find (\<lambda>d. length (strings_Split d ''->'') \<noteq> 3) (reGromTags op)";
        cases "find (\<lambda>d. length (strings_Split d ''->'') \<noteq> 2) (ignore op)";
        cases "find (\<lambda>d. length (strings_Split d ''->'') \<noteq> 2) (map fst (dataTypeEntries op))")
       simp_all
  also have "\<dots> \<longleftrightarrow> wellFormed op \<and> (rename op = [] \<or> gen \<noteq> None)"
    unfolding find_None_iff wellFormed_def by auto
  finally show ?thesis .
qed

text \<open>The equations that evaluate a configuration built from the functional options.\<close>

lemmas option_defs = OrmOption_zero_def WithDB_def WithRename_def WithIgnore_def WithRetags_def
  WithReGromTags_def WithDataType_def WithDaoTables_def WithDaoApi_def

section \<open>The claims of the specification\<close>

text \<open>
  C8. When the ignore, retag and regrom-tag lists are empty and the data-type map is nil
  or empty, \<open>formatGlobal\<close> returns no error and leaves every rule set empty: the
  global option list, the per-table retag, gorm-tag and ignore maps, and both type
  maps. The state is the one \<open>NewOrmCommand\<close> builds, with any generator; a nil
  generator is only reached by \<open>formatGlobal\<close> when \<open>rename\<close> is not empty.
\<close>

theorem empty_inputs_empty_rules:
  assumes "ignore (opt (NewOrmCommand opts)) = []"
    and "retags (opt (NewOrmCommand opts)) = []"
    and "reGromTags (opt (NewOrmCommand opts)) = []"
    and "dataType (opt (NewOrmCommand opts)) = None \<or> dataType (opt (NewOrmCommand opts)) = Some []"
    and "rename (opt (NewOrmCommand opts)) = [] \<or> gen \<noteq> None"
  shows "fst (formatGlobal ((NewOrmCommand opts)\<lparr>generator := gen\<rparr>)) = None \<and>
         global (snd (formatGlobal ((NewOrmCommand opts)\<lparr>generator := gen\<rparr>))) = [] \<and>
         retagopt (snd (formatGlobal ((NewOrmCommand opts)\<lparr>generator := gen\<rparr>))) = [] \<and>
         regormtag (snd (formatGlobal ((NewOrmCommand opts)\<lparr>generator := gen\<rparr>))) = [] \<and>
         ignoreopt (snd (formatGlobal ((NewOrmCommand opts)\<lparr>generator := gen\<rparr>))) = [] \<and>
         types (snd (formatGlobal ((NewOrmCommand opts)\<lparr>generator := gen\<rparr>))) = [] \<and>
         globalTypes (snd (formatGlobal ((NewOrmCommand opts)\<lparr>generator := gen\<rparr>))) = []"
proof -
  define o0 where "o0 = (NewOrmCommand opts)\<lparr>generator := gen\<rparr>"
  have f: "opt o0 = opt (NewOrmCommand opts)" "generator o0 = gen" "global o0 = []"
    "retagopt o0 = []" "regormtag o0 = []" "ignoreopt o0 = []" "types o0 = []" "globalTypes o0 = []"
    by (simp_all add: o0_def NewOrmCommand_def)
  have "formatGlobal o0 = (None, if rename (opt (NewOrmCommand opts)) = [] then o0\<lparr>retagopt := []\<rparr>
      else o0\<lparr>generator := map_option (\<lambda>tr. tr @ [WithFileNameStrategy (fileNameStrategy (rename (opt (NewOrmCommand opts))))]) gen,
              retagopt := []\<rparr>)"
    using assms f by (cases gen) (auto simp add: formatGlobal_def genCall_def)
  then show ?thesis unfolding o0_def [symmetric] using f by simp
qed

text \<open>The theorem at the configuration without any option.\<close>

theorem empty_inputs_empty_rules_witness:
  "fst (formatGlobal (NewOrmCommand [] :: (string, string) Orm)) = None \<and>
   global (snd (formatGlobal (NewOrmCommand [] :: (string, string) Orm))) = [] \<and>
   retagopt (snd (formatGlobal (NewOrmCommand [] :: (string, string) Orm))) = [] \<and>
   regormtag (snd (formatGlobal (NewOrmCommand [] :: (string, string) Orm))) = [] \<and>
   ignoreopt (snd (formatGlobal (NewOrmCommand [] :: (string, string) Orm))) = [] \<and>
   types (snd (formatGlobal (NewOrmCommand [] :: (string, string) Orm))) = [] \<and>
   globalTypes (snd (formatGlobal (NewOrmCommand [] :: (string, string) Orm))) = []"
proof -
  have e: "(NewOrmCommand [] :: (string, string) Orm)\<lparr>generator := None\<rparr> = NewOrmCommand []"
    by (simp add: NewOrmCommand_def)
  show ?thesis
    using empty_inputs_empty_rules
      [of "[] :: (string, string) IOrmOption list" None]
    unfolding e by (simp add: NewOrmCommand_def option_defs)
qed

text \<open>
  C2. A regrom-tag directive with a literal table scope should be indexed under that
  table. In the code the loop fills a local map that is never stored in
  \<open>o.regormtag\<close> (and line 328 appends to the entry of the retag map), so for the
  directive \<open>user->created_at->c_date\<close> the map stays empty and \<open>optByTable\<close> of
  \<open>user\<close> returns no gorm-tag option.
\<close>

theorem regormtag_never_indexed:
  "fst (formatGlobal (NewOrmCommand [WithReGromTags [''user->created_at->c_date'']])) = None \<and>
   regormtag (snd (formatGlobal (NewOrmCommand [WithReGromTags [''user->created_at->c_date'']]))) = [] \<and>
   fst (optByTable (snd (formatGlobal (NewOrmCommand [WithReGromTags [''user->created_at->c_date'']]))) ''user'') = []"
  by (simp add: formatGlobal_def NewOrmCommand_def option_defs optByTable_def lookupList_def)

text \<open>
  C1. Every directive with a literal table scope should give a rule in the options of
  that table and of no other. With one ignore, one retag and one regrom-tag directive
  for \<open>user\<close>, the options of \<open>user\<close> hold the ignore and the JSON tag but no gorm
  tag, and the options of \<open>order\<close> are empty.
\<close>

theorem table_scoped_rules_at_failing_input:
  "fst (formatGlobal (NewOrmCommand
      [WithIgnore [''user->created_at''], WithRetags [''user->name->n''],
       WithReGromTags [''user->email->mail'']])) = None \<and>
   fst (optByTable (snd (formatGlobal (NewOrmCommand
      [WithIgnore [''user->created_at''], WithRetags [''user->name->n''],
       WithReGromTags [''user->email->mail'']]))) ''user'') =
     [FieldIgnore [''created_at''], FieldJSONTag ''name'' ''n,omitempty''] \<and>
   fst (optByTable (snd (formatGlobal (NewOrmCommand
      [WithIgnore [''user->created_at''], WithRetags [''user->name->n''],
       WithReGromTags [''user->email->mail'']]))) ''order'') = []"
  by (simp add: formatGlobal_def NewOrmCommand_def option_defs optByTable_def lookupList_def)

text \<open>
  C7. A table that no literal-scoped directive names should receive the global rules
  only. In a run over \<open>user\<close> and \<open>order\<close> with the retag \<open>user->name->n\<close>,
  \<open>optByTable\<close> of \<open>order\<close> is empty, yet the generator is called for \<open>order\<close> with
  the JSON tag of \<open>user\<close>: the option slice of \<open>model\<close> is shared by all tables.
\<close>

theorem later_table_receives_earlier_options:
  "fst (optByTable
     (snd (run (NewOrmCommand [WithDB \<lparr>GetTables = Inr []\<rparr>, WithRetags [''user->name->n'']])
            \<lparr>GetString_style = Inr ''model'',
             GetStringArray_tables = Inr [''user'', ''order'']\<rparr>)) ''order'') = [] \<and>
   generator
     (snd (run (NewOrmCommand [WithDB \<lparr>GetTables = Inr []\<rparr>, WithRetags [''user->name->n'']])
            \<lparr>GetString_style = Inr ''model'',
             GetStringArray_tables = Inr [''user'', ''order'']\<rparr>)) =
     Some [UseDB, WithJSONTagNameStrategy (\<lambda>columnName. columnName @ '',omitempty''),
           GenerateModel ''user'' [FieldJSONTag ''name'' ''n,omitempty''],
           GenerateModel ''order'' [FieldJSONTag ''name'' ''n,omitempty''],
           Execute]"
  by (simp add: run_def exec_def model_def generateModel_def genoptByTable_def formatGlobal_def
      NewOrmCommand_def option_defs optByTable_def genCall_def lookupList_def Let_def)

section \<open>What a successful formatGlobal has stored\<close>

lemma formatGlobal_success:
  assumes ok: "formatGlobal ((NewOrmCommand opts)\<lparr>generator := gen\<rparr>) = (None, orm')"
  shows "wellFormed (opt (NewOrmCommand opts))"
    and "rename (opt (NewOrmCommand opts)) = [] \<or> gen \<noteq> None"
    and "resolved (opt (NewOrmCommand opts)) gen orm'"
proof -
  let ?o0 = "(NewOrmCommand opts)\<lparr>generator := gen\<rparr>"
  have "formatError (opt ?o0) (generator ?o0) = None"
    using formatGlobal_fst_frame [of ?o0] ok by simp
  then have wf: "wellFormed (opt (NewOrmCommand opts))"
    and g: "rename (opt (NewOrmCommand opts)) = [] \<or> gen \<noteq> None"
    by (simp_all add: formatError_None_iff)
  obtain orm'' where "formatGlobal ?o0 = (None, orm'')"
    and r: "resolved (opt (NewOrmCommand opts)) gen orm''"
    using formatGlobal_ok [OF NewOrmCommand_generator wf g] by (elim exE conjE) (rule that)
  then have "orm'' = orm'" using ok by simp
  then show "resolved (opt (NewOrmCommand opts)) gen orm'" using r by simp
  show "wellFormed (opt (NewOrmCommand opts))" by (rule wf)
  show "rename (opt (NewOrmCommand opts)) = [] \<or> gen \<noteq> None" by (rule g)
qed

lemma Split_char_none: "c \<notin> set a \<Longrightarrow> strings_Split a [c] = [a]"
  by (induction a) auto

lemma Split_char_append:
  "c \<notin> set a \<Longrightarrow> strings_Split (a @ [c] @ b) [c] = a # strings_Split b [c]"
  by (induction a) auto

lemma resolved_global_ignore:
  assumes r: "resolved op gen orm'" and d: "d \<in> set (ignore op)"
    and s: "strings_Split d ''->'' ! 0 = ''*''"
  shows "FieldIgnore (strings_Split (strings_Split d ''->'' ! 1) '','') \<in> set (global orm')"
proof -
  have "strings_Split (strings_Split d ''->'' ! 1) '','' \<in> set (ignoreRules ''*'' (ignore op))"
    using d s by (simp add: ignoreRules_def)
  then show ?thesis using r by (simp add: resolved_def)
qed

lemma resolved_table_ignore:
  assumes r: "resolved op gen orm'" and d: "d \<in> set (ignore op)"
    and s: "strings_Split d ''->'' ! 0 = T" and T: "T \<noteq> ''*''"
  shows "\<exists>ign. map_of (ignoreopt orm') T = Some ign \<and>
           set (strings_Split (strings_Split d ''->'' ! 1) '','') \<subseteq> set ign"
proof -
  have m: "strings_Split (strings_Split d ''->'' ! 1) '','' \<in> set (ignoreRules T (ignore op))"
    using d s by (simp add: ignoreRules_def)
  then have ne: "ignoreRules T (ignore op) \<noteq> []" by auto
  have "map_of (ignoreopt orm') T = Some (concat (ignoreRules T (ignore op)))"
    using r T ne by (simp add: resolved_def)
  moreover have "set (strings_Split (strings_Split d ''->'' ! 1) '','') \<subseteq> set (concat (ignoreRules T (ignore op)))"
    using m by auto
  ultimately show ?thesis by blast
qed

lemma Split_char_free: "\<forall>f\<in>set (strings_Split s [c]). c \<notin> set f"
proof (induction s)
  case Nil
  show ?case by simp
next
  case (Cons x xs)
  show ?case
  proof (cases "x = c")
    case True
    then show ?thesis using Cons.IH by simp
  next
    case False
    obtain p ps where p: "strings_Split xs [c] = p # ps"
      using Split_nonempty [of "[c]" xs] by (cases "strings_Split xs [c]") auto
    then show ?thesis using False Cons.IH by auto
  qed
qed

lemma Split_Join_fields:
  "flds \<noteq> [] \<Longrightarrow> \<forall>f\<in>set flds. c \<notin> set f \<Longrightarrow>
   strings_Split (strings_Join flds [c]) [c] = flds"
proof (induction flds "[c]" rule: strings_Join.induct)
  case 1
  then show ?case by simp
next
  case (2 p)
  then show ?case by (simp add: Split_char_none)
next
  case (3 p q ps)
  have "strings_Split (strings_Join (q # ps) [c]) [c] = q # ps" using 3 by simp
  moreover have "c \<notin> set p" using 3 by simp
  ultimately show ?case using Split_char_append [of c p "strings_Join (q # ps) [c]"] by simp
qed

text \<open>
  Every field part is the comma-join of its comma-free fields, so the hypotheses of
  the next theorem leave no ignore directive out.
\<close>

lemma field_part_is_join:
  "fs = strings_Join (strings_Split fs '','') '','' \<and> strings_Split fs '','' \<noteq> [] \<and>
   (\<forall>f\<in>set (strings_Split fs '',''). CHR '','' \<notin> set f)"
  using Join_Split [of "'',''" fs] Split_nonempty [of "'',''" fs] Split_char_free [of fs "CHR '',''"]
  by simp

text \<open>
  C6. An ignore directive \<open>scope->field1,field2,...\<close> is split at every comma. After a
  successful \<open>formatGlobal\<close>, for any number of comma-free fields, a wildcard directive
  has produced one global \<open>FieldIgnore\<close> holding exactly these fields, in order, and a
  table directive has put all of them in the ignore list of its table. The directive
  \<open>*->created_at,updated_at\<close> alone yields the single global rule
  \<open>FieldIgnore [created_at, updated_at]\<close>.
\<close>

theorem ignore_directive_split_on_commas:
  assumes ok: "formatGlobal ((NewOrmCommand opts)\<lparr>generator := gen\<rparr>) = (None, orm')"
    and d: "d \<in> set (ignore (opt (NewOrmCommand opts)))"
    and p: "strings_Split d ''->'' = [s, strings_Join flds '','']"
    and ne: "flds \<noteq> []"
    and c: "\<forall>f\<in>set flds. CHR '','' \<notin> set f"
  shows "(s = ''*'' \<longrightarrow> FieldIgnore flds \<in> set (global orm')) \<and>
         (s \<noteq> ''*'' \<longrightarrow>
            (\<exists>ign. map_of (ignoreopt orm') s = Some ign \<and> set flds \<subseteq> set ign)) \<and>
         global (snd (formatGlobal (NewOrmCommand [WithIgnore [''*->created_at,updated_at'']]))) =
           [FieldIgnore [''created_at'', ''updated_at'']]"
proof -
  have r: "resolved (opt (NewOrmCommand opts)) gen orm'"
    using formatGlobal_success(3) [OF ok] .
  have f: "strings_Split (strings_Split d ''->'' ! 1) '','' = flds"
    using p Split_Join_fields [OF ne c] by simp
  have s0: "strings_Split d ''->'' ! 0 = s" using p by simp
  have a: "s = ''*'' \<longrightarrow> FieldIgnore flds \<in> set (global orm')"
    using resolved_global_ignore [OF r d] s0 f by simp
  have b: "s \<noteq> ''*'' \<longrightarrow>
            (\<exists>ign. map_of (ignoreopt orm') s = Some ign \<and> set flds \<subseteq> set ign)"
    using resolved_table_ignore [OF r d s0] f by auto
  have c: "global (snd (formatGlobal (NewOrmCommand [WithIgnore [''*->created_at,updated_at'']]))) =
           [FieldIgnore [''created_at'', ''updated_at'']]"
    by (simp add: formatGlobal_def NewOrmCommand_def option_defs)
  show ?thesis using a b c by blast
qed

text \<open>
  The theorem at a configuration with a wildcard directive of three fields and a table
  directive of two.
\<close>

theorem ignore_directive_split_on_commas_witness:
  "FieldIgnore [''created_at'', ''updated_at'', ''deleted_at''] \<in>
     set (global (snd (formatGlobal (NewOrmCommand
       ([WithIgnore [''*->created_at,updated_at,deleted_at'', ''user->id,name'']]
          :: (string, string) IOrmOption list))))) \<and>
   (\<exists>ign. map_of (ignoreopt (snd (formatGlobal (NewOrmCommand
       ([WithIgnore [''*->created_at,updated_at,deleted_at'', ''user->id,name'']]
          :: (string, string) IOrmOption list))))) ''user'' = Some ign \<and>
      set [''id'', ''name''] \<subseteq> set ign)"
proof -
  let ?opts = "[WithIgnore [''*->created_at,updated_at,deleted_at'', ''user->id,name'']]
                 :: (string, string) IOrmOption list"
  let ?o' = "snd (formatGlobal (NewOrmCommand ?opts))"
  have e: "(NewOrmCommand ?opts)\<lparr>generator := None\<rparr> = NewOrmCommand ?opts"
    by (simp add: NewOrmCommand_def)
  have ok: "formatGlobal ((NewOrmCommand ?opts)\<lparr>generator := None\<rparr>) = (None, ?o')"
    unfolding e by (simp add: formatGlobal_def NewOrmCommand_def option_defs lookupList_def)
  have d1: "''*->created_at,updated_at,deleted_at'' \<in> set (ignore (opt (NewOrmCommand ?opts)))"
    and d2: "''user->id,name'' \<in> set (ignore (opt (NewOrmCommand ?opts)))"
    by (simp_all add: NewOrmCommand_def option_defs)
  have p1: "strings_Split ''*->created_at,updated_at,deleted_at'' ''->'' =
              [''*'', strings_Join [''created_at'', ''updated_at'', ''deleted_at''] '','']"
    and p2: "strings_Split ''user->id,name'' ''->'' = [''user'', strings_Join [''id'', ''name''] '','']"
    by simp_all
  have n1: "[''created_at'', ''updated_at'', ''deleted_at''] \<noteq> []"
    and n2: "[''id'', ''name''] \<noteq> []" by simp_all
  have c1: "\<forall>f\<in>set [''created_at'', ''updated_at'', ''deleted_at'']. CHR '','' \<notin> set f"
    and c2: "\<forall>f\<in>set [''id'', ''name'']. CHR '','' \<notin> set f" by simp_all
  have t1: "FieldIgnore [''created_at'', ''updated_at'', ''deleted_at''] \<in> set (global ?o')"
    using ignore_directive_split_on_commas [OF ok d1 p1 n1 c1, THEN conjunct1] by simp
  have t2: "\<exists>ign. map_of (ignoreopt ?o') ''user'' = Some ign \<and> set [''id'', ''name''] \<subseteq> set ign"
    using ignore_directive_split_on_commas [OF ok d2 p2 n2 c2, THEN conjunct2, THEN conjunct1]
    by simp
  show ?thesis using t1 t2 by blast
qed

section \<open>The calls that model makes on the generator\<close>

lemma stepsTo_refl: "generator a \<noteq> None \<Longrightarrow> stepsTo a [] a"
  by (auto simp add: stepsTo_def sameRules_def)

lemma stepsTo_trans: "stepsTo a e1 b \<Longrightarrow> stepsTo b e2 c \<Longrightarrow> stepsTo a (e1 @ e2) c"
  by (auto simp add: stepsTo_def sameRules_def)

lemma stepsTo_generator: "stepsTo a ext b \<Longrightarrow> generator b \<noteq> None"
  by (auto simp add: stepsTo_def)

lemma genCall_steps:
  "generator orm \<noteq> None \<Longrightarrow> fst (genCall c orm) = None \<and> stepsTo orm [c] (snd (genCall c orm))"
  by (auto simp add: genCall_def stepsTo_def sameRules_def)

lemma optByTable_fst_same: "sameRules a b \<Longrightarrow> fst (optByTable b T) = fst (optByTable a T)"
  by (simp add: optByTable_def sameRules_def Let_def split: if_splits prod.splits)

lemma optByTable_steps:
  assumes "generator orm \<noteq> None"
  shows "fst (snd (optByTable orm T)) = None \<and>
         (\<exists>ext. stepsTo orm ext (snd (snd (optByTable orm T))) \<and>
                 (ext = [] \<or> (\<exists>m. ext = [WithDataTypeMap m])))"
proof -
  let ?m = "case map_of (types orm) T of Some ty \<Rightarrow> AList.merge (globalTypes orm) ty
            | None \<Rightarrow> globalTypes orm"
  show ?thesis
  proof (cases "length ?m = 0")
    case True
    then have "snd (optByTable orm T) = (None, orm)"
      by (simp add: optByTable_def Let_def)
    then show ?thesis using stepsTo_refl [OF assms] by auto
  next
    case False
    then have "snd (optByTable orm T) = genCall (WithDataTypeMap ?m) orm"
      by (simp add: optByTable_def Let_def split: prod.splits)
    then show ?thesis using genCall_steps [OF assms, of "WithDataTypeMap ?m"] by auto
  qed
qed

lemma genoptByTable_steps:
  assumes "generator orm \<noteq> None"
  shows "fst (genoptByTable orm T) = None \<and>
         (\<exists>ext. stepsTo orm ext (snd (genoptByTable orm T)) \<and>
                 (ext = [] \<or> (\<exists>m. ext = [WithDataTypeMap m])))"
proof (cases "map_of (types orm) T")
  case None
  then have "genoptByTable orm T = (None, orm)" by (simp add: genoptByTable_def)
  then show ?thesis using stepsTo_refl [OF assms] by auto
next
  case (Some ty)
  show ?thesis
  proof (cases "length (AList.merge (globalTypes orm) ty) = 0")
    case True
    then have "genoptByTable orm T = (None, orm)" using Some by (simp add: genoptByTable_def)
    then show ?thesis using stepsTo_refl [OF assms] by auto
  next
    case False
    then have "genoptByTable orm T = genCall (WithDataTypeMap (AList.merge (globalTypes orm) ty)) orm"
      using Some by (simp add: genoptByTable_def Let_def)
    then show ?thesis
      using genCall_steps [OF assms, of "WithDataTypeMap (AList.merge (globalTypes orm) ty)"] by auto
  qed
qed

lemma generateModel_steps:
  assumes "generator orm \<noteq> None"
  shows "fst (generateModel t opts orm) = None \<and>
         stepsTo orm [GenerateModel t opts] (snd (generateModel t opts orm))"
  using assms by (auto simp add: generateModel_def genCall_def stepsTo_def sameRules_def)

lemma generateModelAs_steps:
  assumes "generator orm \<noteq> None"
  shows "fst (generateModelAs t n opts orm) = None \<and>
         stepsTo orm [GenerateModelAs t n opts] (snd (generateModelAs t n opts orm))"
  using assms by (auto simp add: generateModelAs_def genCall_def stepsTo_def sameRules_def)

lemma map_filter_append: "List.map_filter f (xs @ ys) = List.map_filter f xs @ List.map_filter f ys"
  by (simp add: List.map_filter_def)

lemma map_filter_Nil: "List.map_filter f [] = []"
  by (simp add: List.map_filter_def)

lemma map_filter_single: "List.map_filter f [x] = (case f x of None \<Rightarrow> [] | Some y \<Rightarrow> [y])"
  by (cases "f x") (simp_all add: List.map_filter_def)

lemma sameRules_refl: "sameRules a a"
  by (simp add: sameRules_def)

lemma sameRules_sym: "sameRules a b \<Longrightarrow> sameRules b a"
  by (simp add: sameRules_def)

lemma stepsTo_sameRules: "stepsTo a ext b \<Longrightarrow> sameRules a b"
  by (simp add: stepsTo_def)

lemma modelCalls_same: "sameRules a b \<Longrightarrow> modelCalls b opts vs = modelCalls a opts vs"
  by (induction vs arbitrary: opts) (simp_all add: optByTable_fst_same)

lemma modelLoop_steps:
  "generator orm \<noteq> None \<Longrightarrow>
   fst (modelLoop tables opts orm) = None \<and>
   (\<exists>ext. stepsTo orm ext (snd (modelLoop tables opts orm)) \<and>
          List.map_filter genModelCall ext = modelCalls orm opts (validTables tables) \<and>
          List.map_filter jsonTagNS ext = [] \<and> Execute \<notin> set ext)"
proof (induction tables arbitrary: opts orm)
  case Nil
  have "stepsTo orm [] orm" using Nil stepsTo_refl by blast
  then show ?case by (auto simp add: validTables_def map_filter_Nil)
next
  case (Cons val rest)
  let ?vals = "strings_Split val ''@''"
  define T where "T = ?vals ! 0"
  show ?case
  proof (cases "length ?vals > 2")
    case True
    define o1 where "o1 = orm\<lparr>console := console orm @
                [Yellow (''Skipping invalid table format: '' @ val @
                         ''. Expected format: table@modelName'' @ [CHR 0x0A])]\<rparr>"
    have g1: "generator o1 \<noteq> None" using Cons.prems by (simp add: o1_def)
    have s1: "stepsTo orm [] o1" using Cons.prems by (auto simp add: o1_def stepsTo_def sameRules_def)
    have step: "modelLoop (val # rest) opts orm = modelLoop rest opts o1"
      using True by (simp add: o1_def)
    obtain ext where e: "stepsTo o1 ext (snd (modelLoop rest opts o1))"
      and m: "List.map_filter genModelCall ext = modelCalls o1 opts (validTables rest)"
      and j: "List.map_filter jsonTagNS ext = []" and x: "Execute \<notin> set ext"
      using Cons.IH [OF g1, of opts] by (elim exE conjE) (rule that)
    have v: "validTables (val # rest) = validTables rest" using True by (simp add: validTables_def)
    have "stepsTo orm ext (snd (modelLoop rest opts o1))"
      using stepsTo_trans [OF s1 e] by simp
    moreover have "modelCalls o1 opts (validTables rest) = modelCalls orm opts (validTables rest)"
      using modelCalls_same [OF stepsTo_sameRules [OF s1]] .
    moreover have "fst (modelLoop rest opts o1) = None" using Cons.IH [OF g1, of opts] by blast
    ultimately show ?thesis unfolding step v using m j x by auto
  next
    case False
    define tableopt where "tableopt = fst (optByTable orm T)"
    define o1 where "o1 = snd (snd (optByTable orm T))"
    define opts1 where "opts1 = opts @ tableopt"
    obtain e1 where s1: "stepsTo orm e1 o1" and k1: "e1 = [] \<or> (\<exists>m. e1 = [WithDataTypeMap m])"
      using optByTable_steps [OF Cons.prems, of T, folded o1_def] by (elim exE conjE) (rule that)
    have ob: "optByTable orm (?vals ! 0) = (tableopt, None, o1)"
      using optByTable_steps [OF Cons.prems, of T]
      by (cases "optByTable orm T") (simp add: tableopt_def o1_def T_def)
    have g1: "generator o1 \<noteq> None" using stepsTo_generator [OF s1] .
    define o2 where "o2 = snd (genoptByTable o1 T)"
    obtain e2 where s2: "stepsTo o1 e2 o2" and k2: "e2 = [] \<or> (\<exists>m. e2 = [WithDataTypeMap m])"
      using genoptByTable_steps [OF g1, of T, folded o2_def] by (elim exE conjE) (rule that)
    have gb: "genoptByTable o1 (?vals ! 0) = (None, o2)"
      using genoptByTable_steps [OF g1, of T]
      by (cases "genoptByTable o1 T") (simp add: o2_def T_def)
    have g2: "generator o2 \<noteq> None" using stepsTo_generator [OF s2] .
    define c where "c = (if length ?vals = 1 then GenerateModel (?vals ! 0) opts1
                         else GenerateModelAs (?vals ! 1) (?vals ! 0) opts1 :: ('a, 'b) GenCall)"
    define o3 where "o3 = (if length ?vals = 1 then snd (generateModel (?vals ! 0) opts1 o2)
                           else snd (generateModelAs (?vals ! 1) (?vals ! 0) opts1 o2))"
    have s3: "stepsTo o2 [c] o3"
      using generateModel_steps [OF g2] generateModelAs_steps [OF g2] by (simp add: c_def o3_def)
    have gm: "length ?vals = 1 \<Longrightarrow> generateModel (?vals ! 0) opts1 o2 = (None, o3)"
      using generateModel_steps [OF g2, of "?vals ! 0" opts1]
      by (cases "generateModel (?vals ! 0) opts1 o2") (simp add: o3_def)
    have gma: "length ?vals \<noteq> 1 \<Longrightarrow> generateModelAs (?vals ! 1) (?vals ! 0) opts1 o2 = (None, o3)"
      using generateModelAs_steps [OF g2, of "?vals ! 1" "?vals ! 0" opts1]
      by (cases "generateModelAs (?vals ! 1) (?vals ! 0) opts1 o2") (simp add: o3_def)
    have g3: "generator o3 \<noteq> None" using stepsTo_generator [OF s3] .
    have step: "modelLoop (val # rest) opts orm = modelLoop rest opts1 o3"
    proof (cases "length ?vals = 1")
      case True
      show ?thesis using False True by (simp add: ob gb gm [OF True] Let_def opts1_def [symmetric])
    next
      case F: False
      show ?thesis using False F gma [OF F] by (simp add: ob gb Let_def opts1_def [symmetric])
    qed
    obtain ext where e: "stepsTo o3 ext (snd (modelLoop rest opts1 o3))"
      and m: "List.map_filter genModelCall ext = modelCalls o3 opts1 (validTables rest)"
      and j: "List.map_filter jsonTagNS ext = []" and x: "Execute \<notin> set ext"
      using Cons.IH [OF g3, of opts1] by (elim exE conjE) (rule that)
    have f: "fst (modelLoop rest opts1 o3) = None" using Cons.IH [OF g3, of opts1] by blast
    have s03: "stepsTo orm (e1 @ e2 @ [c]) o3"
      using stepsTo_trans [OF s1 stepsTo_trans [OF s2 s3]] .
    have all: "stepsTo orm ((e1 @ e2 @ [c]) @ ext) (snd (modelLoop rest opts1 o3))"
      using stepsTo_trans [OF s03 e] .
    have v: "validTables (val # rest) = val # validTables rest"
      using False by (simp add: validTables_def)
    have mc: "modelCalls o3 opts1 (validTables rest) = modelCalls orm opts1 (validTables rest)"
      using modelCalls_same [OF stepsTo_sameRules [OF s03]] .
    have cm: "genModelCall c = Some (?vals ! 0, opts1)" "jsonTagNS c = None" "c \<noteq> Execute"
      by (simp_all add: c_def)
    have m1: "List.map_filter genModelCall e1 = []" "List.map_filter jsonTagNS e1 = []" "Execute \<notin> set e1"
      using k1 by (auto simp add: map_filter_Nil map_filter_single)
    have m2: "List.map_filter genModelCall e2 = []" "List.map_filter jsonTagNS e2 = []" "Execute \<notin> set e2"
      using k2 by (auto simp add: map_filter_Nil map_filter_single)
    have r1: "List.map_filter genModelCall ((e1 @ e2 @ [c]) @ ext) =
                modelCalls orm opts (validTables (val # rest))"
      unfolding v using m m1 m2 cm mc
      by (simp add: map_filter_append map_filter_single opts1_def tableopt_def T_def)
    have r2: "List.map_filter jsonTagNS ((e1 @ e2 @ [c]) @ ext) = []"
      using j m1 m2 cm by (simp add: map_filter_append map_filter_single)
    have r3: "Execute \<notin> set ((e1 @ e2 @ [c]) @ ext)"
      using x m1 m2 cm by auto
    show ?thesis unfolding step using f all r1 r2 r3 by blast
  qed
qed

lemma modelCalls_length: "length (modelCalls orm opts vs) = length vs"
  by (induction vs arbitrary: opts) simp_all

lemma modelCalls_nth:
  "j < length vs \<Longrightarrow>
   modelCalls orm opts vs ! j =
     (strings_Split (vs ! j) ''@'' ! 0,
      opts @ concat (map (\<lambda>val. fst (optByTable orm (strings_Split val ''@'' ! 0))) (take (Suc j) vs)))"
proof (induction vs arbitrary: opts j)
  case Nil
  then show ?case by simp
next
  case (Cons v vs)
  show ?case
  proof (cases j)
    case 0
    then show ?thesis by simp
  next
    case (Suc k)
    then have "k < length vs" using Cons.prems by simp
    then show ?thesis using Cons.IH [of k] Suc by simp
  qed
qed

lemma model_steps:
  assumes gen: "generator orm \<noteq> None"
    and src: "tables \<noteq> [] \<and> ts = tables \<or>
              tables = [] \<and> (\<exists>d. db (opt orm) = Some d \<and> GetTables d = Inr ts)"
  shows "fst (model orm tables) = None \<and>
   (\<exists>ext. stepsTo orm ext (snd (model orm tables)) \<and>
          List.map_filter genModelCall ext =
            modelCalls orm
              ((if length (ignore (opt orm)) > 0 then [FieldIgnore (ignore (opt orm))] else []) @
               global orm) (validTables ts) \<and>
          List.map_filter jsonTagNS ext = [] \<and> Execute \<notin> set ext)"
proof -
  have "model orm tables =
      modelLoop ts ((if length (ignore (opt orm)) > 0 then [FieldIgnore (ignore (opt orm))] else []) @
               global orm) orm"
    using src by (auto simp add: model_def)
  then show ?thesis using modelLoop_steps [OF gen] by simp
qed

text \<open>
  C9. \<open>model\<close> does not reset its option slice between tables. In a run over the table
  list \<open>ts\<close> (the argument, or the tables of the database when the argument is empty),
  the generator is called once for every entry that is not skipped, in order, and for
  \<open>i < j\<close> the options of the \<open>j\<close>-th call contain the options that \<open>optByTable\<close>
  returns for the \<open>i\<close>-th table.
\<close>

theorem options_accumulate_over_tables:
  assumes gen: "generator orm \<noteq> None"
    and src: "tables \<noteq> [] \<and> ts = tables \<or>
              tables = [] \<and> (\<exists>d. db (opt orm) = Some d \<and> GetTables d = Inr ts)"
    and ij: "i < j" and j: "j < length (validTables ts)"
  shows "\<exists>tr ext. generator orm = Some tr \<and>
           generator (snd (model orm tables)) = Some (tr @ ext) \<and>
           length (List.map_filter genModelCall ext) = length (validTables ts) \<and>
           fst (List.map_filter genModelCall ext ! j) = strings_Split (validTables ts ! j) ''@'' ! 0 \<and>
           set (fst (optByTable orm (strings_Split (validTables ts ! i) ''@'' ! 0)))
             \<subseteq> set (snd (List.map_filter genModelCall ext ! j))"
proof -
  let ?base = "(if length (ignore (opt orm)) > 0 then [FieldIgnore (ignore (opt orm))] else []) @
               global orm"
  let ?vs = "validTables ts"
  obtain ext where st: "stepsTo orm ext (snd (model orm tables))"
    and mc: "List.map_filter genModelCall ext = modelCalls orm ?base ?vs"
    using model_steps [OF gen src] by (elim exE conjE) (rule that)
  obtain tr where tr: "generator orm = Some tr" "generator (snd (model orm tables)) = Some (tr @ ext)"
    using st by (auto simp add: stepsTo_def)
  have len: "length (List.map_filter genModelCall ext) = length ?vs"
    unfolding mc by (rule modelCalls_length)
  have nth: "List.map_filter genModelCall ext ! j =
     (strings_Split (?vs ! j) ''@'' ! 0,
      ?base @ concat (map (\<lambda>val. fst (optByTable orm (strings_Split val ''@'' ! 0))) (take (Suc j) ?vs)))"
    unfolding mc by (rule modelCalls_nth [OF j])
  have "?vs ! i \<in> set (take (Suc j) ?vs)"
    using ij j by (auto simp add: in_set_conv_nth intro!: exI [of _ i])
  then have "set (fst (optByTable orm (strings_Split (?vs ! i) ''@'' ! 0)))
      \<subseteq> set (concat (map (\<lambda>val. fst (optByTable orm (strings_Split val ''@'' ! 0))) (take (Suc j) ?vs)))"
    by auto
  then have sub: "set (fst (optByTable orm (strings_Split (?vs ! i) ''@'' ! 0)))
      \<subseteq> set (snd (List.map_filter genModelCall ext ! j))"
    unfolding nth by auto
  show ?thesis using tr len nth sub by auto
qed

text \<open>The theorem at a state with one retag for \<open>user\<close>, for the tables \<open>user\<close> and \<open>order\<close>.\<close>

theorem options_accumulate_over_tables_witness:
  "\<exists>tr ext. generator ((NewOrmCommand ([] :: (string, string) IOrmOption list))
                 \<lparr>generator := Some [], retagopt := [(''user'', [(''name'', ''n,omitempty'')])]\<rparr>) = Some tr \<and>
     generator (snd (model ((NewOrmCommand ([] :: (string, string) IOrmOption list))
                 \<lparr>generator := Some [], retagopt := [(''user'', [(''name'', ''n,omitempty'')])]\<rparr>)
                 [''user'', ''order''])) = Some (tr @ ext) \<and>
     length (List.map_filter genModelCall ext) = 2 \<and>
     fst (List.map_filter genModelCall ext ! 1) = ''order'' \<and>
     FieldJSONTag ''name'' ''n,omitempty'' \<in> set (snd (List.map_filter genModelCall ext ! 1))"
proof -
  let ?orm = "(NewOrmCommand ([] :: (string, string) IOrmOption list))
                 \<lparr>generator := Some [], retagopt := [(''user'', [(''name'', ''n,omitempty'')])]\<rparr>"
  have gen: "generator ?orm \<noteq> None" by simp
  have src: "[''user'', ''order''] \<noteq> [] \<and> [''user'', ''order''] = [''user'', ''order''] \<or>
      [''user'', ''order''] = [] \<and>
      (\<exists>d. db (opt ?orm) = Some d \<and> GetTables d = Inr [''user'', ''order''])"
    by simp
  have v: "validTables [''user'', ''order''] = [''user'', ''order'']"
    by (simp add: validTables_def)
  have ij: "(0::nat) < 1" and j: "1 < length (validTables [''user'', ''order''])"
    by (simp_all add: v)
  have o: "fst (optByTable ?orm ''user'') = [FieldJSONTag ''name'' ''n,omitempty'']"
    by (simp add: optByTable_def NewOrmCommand_def)
  show ?thesis
    using options_accumulate_over_tables [OF gen src ij j] unfolding v
    by (simp add: o numeral_2_eq_2)
qed

section \<open>The calls of a whole run\<close>

lemma quiet_refl: "generator a \<noteq> None \<Longrightarrow> quiet a a"
  by (auto simp add: quiet_def map_filter_Nil)

lemma quiet_trans: "quiet a b \<Longrightarrow> quiet b c \<Longrightarrow> quiet a c"
  by (auto simp add: quiet_def map_filter_append)

lemma quiet_generator: "quiet a b \<Longrightarrow> generator b \<noteq> None"
  by (auto simp add: quiet_def)

lemma quiet_same: "quiet a b \<Longrightarrow> generator c = generator b \<Longrightarrow> quiet a c"
  by (auto simp add: quiet_def)

lemma quiet_genCall:
  "generator a \<noteq> None \<Longrightarrow> jsonTagNS c = None \<Longrightarrow>
   fst (genCall c a) = None \<and> quiet a (snd (genCall c a))"
  by (auto simp add: quiet_def genCall_def map_filter_single)

lemma stepsTo_quiet: "stepsTo a ext b \<Longrightarrow> List.map_filter jsonTagNS ext = [] \<Longrightarrow> quiet a b"
  by (auto simp add: stepsTo_def quiet_def)

lemma model_quiet:
  assumes gen: "generator orm \<noteq> None"
  shows "quiet orm (snd (model orm tables)) \<and>
         (db (opt orm) \<noteq> None \<longrightarrow> fst (model orm tables) \<noteq> Some NilDereference)"
proof -
  have q0: "quiet orm orm" using quiet_refl [OF gen] .
  have ok: "quiet orm (snd (model orm tables)) \<and> fst (model orm tables) = None"
    if src: "tables \<noteq> [] \<and> ts = tables \<or>
              tables = [] \<and> (\<exists>d. db (opt orm) = Some d \<and> GetTables d = Inr ts)" for ts
  proof -
    obtain ext where "stepsTo orm ext (snd (model orm tables))"
      and "List.map_filter jsonTagNS ext = []" and "fst (model orm tables) = None"
      using model_steps [OF gen src] by (elim exE conjE) (rule that)
    then show ?thesis using stepsTo_quiet by blast
  qed
  show ?thesis
  proof (cases "tables = []")
    case False
    then show ?thesis using ok [of tables] by simp
  next
    case True
    show ?thesis
    proof (cases "db (opt orm)")
      case None
      then have "model orm tables = (Some NilDereference, orm)" using True by (simp add: model_def)
      then show ?thesis using q0 None by simp
    next
      case (Some d)
      show ?thesis
      proof (cases "GetTables d")
        case (Inl msg)
        then have "model orm tables = (Some (ErrorsNew msg), orm)"
          using True Some by (simp add: model_def)
        then show ?thesis using q0 by simp
      next
        case (Inr ts)
        then show ?thesis using ok [of ts] True Some by simp
      qed
    qed
  qed
qed

lemma daoApiLoop_quiet:
  "generator orm \<noteq> None \<Longrightarrow>
   fst (daoApiLoop api sm orm) = None \<and> quiet orm (snd (daoApiLoop api sm orm))"
proof (induction api arbitrary: orm)
  case Nil
  then show ?case by (simp add: quiet_refl)
next
  case (Cons kv api)
  obtain table annotae where kv: "kv = (table, annotae)" by (cases kv)
  show ?case
  proof (cases "table = ''*'' \<or> map_of sm table = None")
    case True
    then have "daoApiLoop (kv # api) sm orm = daoApiLoop api sm orm"
      unfolding kv by auto
    then show ?thesis using Cons.IH [OF Cons.prems] by simp
  next
    case False
    then obtain s where s: "map_of sm table = Some s" and t: "table \<noteq> ''*''" by auto
    define o1 where "o1 = snd (genCall (ApplyInterface annotae [s]) orm)"
    have g: "fst (genCall (ApplyInterface annotae [s]) orm) = None" and q1: "quiet orm o1"
      using quiet_genCall [OF Cons.prems, of "ApplyInterface annotae [s]"] by (simp_all add: o1_def)
    have gc: "genCall (ApplyInterface annotae [s]) orm = (None, o1)"
      using g by (cases "genCall (ApplyInterface annotae [s]) orm") (simp add: o1_def)
    have step: "daoApiLoop (kv # api) sm orm = daoApiLoop api sm o1"
      unfolding kv using s t by (simp add: gc)
    have g1: "generator o1 \<noteq> None" using quiet_generator [OF q1] .
    show ?thesis unfolding step using Cons.IH [OF g1] q1 quiet_trans by blast
  qed
qed

lemma dao_quiet:
  assumes gen: "generator orm \<noteq> None"
  shows "quiet orm (snd (dao orm)) \<and> fst (dao orm) \<noteq> Some NilDereference"
proof -
  let ?sel = "filter (\<lambda>meta. ''*'' \<in> set (daoTables (opt orm)) \<or>
                                 TableName meta \<in> set (daoTables (opt orm))) (structs orm)"
  let ?sm = "fold (\<lambda>meta m. AList.update (TableName meta) meta m) ?sel []"
  have q0: "quiet orm orm" using quiet_refl [OF gen] .
  show ?thesis
  proof (cases "length (structs orm) = 0 \<or> length ?sel = 0")
    case True
    then have "snd (dao orm) = orm \<and> fst (dao orm) \<noteq> Some NilDereference"
      by (auto simp add: dao_def Let_def)
    then show ?thesis using q0 by simp
  next
    case False
    define o1 where "o1 = snd (genCall (ApplyBasic ?sel) orm)"
    have g: "fst (genCall (ApplyBasic ?sel) orm) = None" and q1: "quiet orm o1"
      using quiet_genCall [OF gen, of "ApplyBasic ?sel"] by (simp_all add: o1_def)
    have gc: "genCall (ApplyBasic ?sel) orm = (None, o1)"
      using g by (cases "genCall (ApplyBasic ?sel) orm") (simp add: o1_def)
    have g1: "generator o1 \<noteq> None" using quiet_generator [OF q1] .
    have op1: "opt o1 = opt orm" using gen by (auto simp add: o1_def genCall_def)
    define r2 where "r2 = (case map_of (daoApi (opt o1)) ''*'' of
                              Some globalAnnotae \<Rightarrow> genCall (ApplyInterface globalAnnotae ?sel) o1
                            | None \<Rightarrow> (None, o1))"
    have r2: "fst r2 = None \<and> quiet o1 (snd r2)"
    proof (cases "map_of (daoApi (opt o1)) ''*''")
      case None
      then show ?thesis using quiet_refl [OF g1] by (simp add: r2_def)
    next
      case (Some ga)
      then show ?thesis using quiet_genCall [OF g1, of "ApplyInterface ga ?sel"] by (simp add: r2_def)
    qed
    define o2 where "o2 = snd r2"
    have r2e: "r2 = (None, o2)" using r2 by (cases r2) (simp add: o2_def)
    have q2: "quiet orm o2" using q1 r2 quiet_trans unfolding o2_def by blast
    have g2: "generator o2 \<noteq> None" using quiet_generator [OF q2] .
    have d: "dao orm = daoApiLoop (daoApi (opt o2)) ?sm o2"
      using False by (simp add: dao_def Let_def gc r2_def [symmetric] r2e)
    show ?thesis unfolding d using daoApiLoop_quiet [OF g2] q2 quiet_trans by fastforce
  qed
qed

lemma exec_quiet:
  assumes gen: "generator orm \<noteq> None" and db: "db (opt orm) \<noteq> None"
  shows "quiet orm (snd (exec orm args)) \<and> fst (exec orm args) \<noteq> Some NilDereference"
proof -
  have q0: "quiet orm orm" using quiet_refl [OF gen] .
  show ?thesis
  proof (cases "GetString_style args")
    case (Inl msg)
    then show ?thesis using q0 by (simp add: exec_def)
  next
    case style: (Inr style)
    show ?thesis
    proof (cases "GetStringArray_tables args")
      case (Inl msg)
      then show ?thesis using q0 style by (simp add: exec_def)
    next
      case tables: (Inr tables)
      define e1 where "e1 = fst (model orm tables)"
      define o1 where "o1 = snd (model orm tables)"
      have m: "model orm tables = (e1, o1)" by (simp add: e1_def o1_def)
      have q1: "quiet orm o1" and n1: "e1 \<noteq> Some NilDereference"
        using model_quiet [OF gen, of tables] db by (simp_all add: e1_def o1_def)
      have g1: "generator o1 \<noteq> None" using quiet_generator [OF q1] .
      show ?thesis
      proof (cases e1)
        case (Some err)
        then have "exec orm args = (Some err, o1)" using style tables m by (simp add: exec_def)
        then show ?thesis using q1 n1 Some by simp
      next
        case None
        show ?thesis
        proof (cases "style = ''model''")
          case True
          then have "exec orm args = genCall Execute o1"
            using style tables m None by (simp add: exec_def)
          then show ?thesis using quiet_genCall [OF g1, of Execute] q1 quiet_trans by fastforce
        next
          case False
          define e2 where "e2 = fst (dao o1)"
          define o2 where "o2 = snd (dao o1)"
          have d: "dao o1 = (e2, o2)" by (simp add: e2_def o2_def)
          have q2: "quiet o1 o2" and n2: "e2 \<noteq> Some NilDereference"
            using dao_quiet [OF g1] by (simp_all add: e2_def o2_def)
          have q02: "quiet orm o2" using q1 q2 quiet_trans by blast
          have g2: "generator o2 \<noteq> None" using quiet_generator [OF q02] .
          show ?thesis
          proof (cases e2)
            case (Some err)
            then have "exec orm args = (Some err, o2)"
              using style tables m None False d by (simp add: exec_def)
            then show ?thesis using q02 n2 Some by simp
          next
            case N2: None
            then have "exec orm args = genCall Execute o2"
              using style tables m None False d by (simp add: exec_def)
            then show ?thesis using quiet_genCall [OF g2, of Execute] q02 quiet_trans by fastforce
          qed
        qed
      qed
    qed
  qed
qed

lemma find_filter_hd:
  "find P xs = (if filter P xs = [] then None else Some (hd (filter P xs)))"
  by (induction xs) simp_all

lemma formatError_malformed:
  assumes mal: "malformedDirectives op \<noteq> []" and gen: "gen \<noteq> None"
  shows "\<exists>label. label \<in> {''invalid retag format: '', ''invalid ignore format: '',
                         ''invalid data type mapping format: ''} \<and>
           formatError op gen = Some (ErrorsNew (label @ hd (malformedDirectives op)))"
proof -
  let ?A = "filter (\<lambda>d. length (strings_Split d ''->'') \<noteq> 3) (retags op)"
  let ?B = "filter (\<lambda>d. length (strings_Split d ''->'') \<noteq> 3) (reGromTags op)"
  let ?C = "filter (\<lambda>d. length (strings_Split d ''->'') \<noteq> 2) (ignore op)"
  let ?D = "filter (\<lambda>d. length (strings_Split d ''->'') \<noteq> 2) (map fst (dataTypeEntries op))"
  have m: "malformedDirectives op = ?A @ ?B @ ?C @ ?D" by (simp add: malformedDirectives_def)
  show ?thesis
  proof (cases "?A = []")
    case False
    then have "formatError op gen = Some (ErrorsNew (''invalid retag format: '' @ hd (malformedDirectives op)))"
      unfolding formatError_def find_filter_hd m by simp
    then show ?thesis by blast
  next
    case A: True
    show ?thesis
    proof (cases "?B = []")
      case False
      then have "formatError op gen = Some (ErrorsNew (''invalid retag format: '' @ hd (malformedDirectives op)))"
        unfolding formatError_def find_filter_hd m using A by simp
      then show ?thesis by blast
    next
      case B: True
      show ?thesis
      proof (cases "?C = []")
        case False
        then have "formatError op gen = Some (ErrorsNew (''invalid ignore format: '' @ hd (malformedDirectives op)))"
          unfolding formatError_def find_filter_hd m using A B by simp
        then show ?thesis by blast
      next
        case C: True
        obtain g where g: "gen = Some g" using gen by auto
        have D: "?D \<noteq> []" using mal A B C unfolding m by simp
        then have "formatError op gen =
            Some (ErrorsNew (''invalid data type mapping format: '' @ hd (malformedDirectives op)))"
          unfolding formatError_def find_filter_hd m using A B C g by simp
        then show ?thesis by blast
      qed
    qed
  qed
qed

lemma formatError_no_panic: "gen \<noteq> None \<Longrightarrow> formatError op gen \<noteq> Some NilDereference"
  unfolding formatError_def find_filter_hd by (cases gen) simp_all

lemma formatGlobal_quiet:
  assumes gen: "generator orm \<noteq> None"
  shows "quiet orm (snd (formatGlobal orm))"
proof -
  obtain tr where tr: "generator orm = Some tr" using gen by auto
  let ?c = "WithFileNameStrategy (fileNameStrategy (rename (opt orm)))"
  have "generator (snd (formatGlobal orm)) = Some tr \<or>
        generator (snd (formatGlobal orm)) = Some (tr @ [?c])"
    using formatGlobal_fst_frame [of orm] tr by (auto simp add: keeps_def)
  then show ?thesis
  proof
    assume "generator (snd (formatGlobal orm)) = Some tr"
    then show ?thesis using tr by (simp add: quiet_def map_filter_Nil)
  next
    assume "generator (snd (formatGlobal orm)) = Some (tr @ [?c])"
    then show ?thesis using tr by (auto simp add: quiet_def map_filter_single)
  qed
qed

lemma formatGlobal_opt: "opt (snd (formatGlobal orm)) = opt orm"
  using formatGlobal_fst_frame [of orm] by (auto simp add: keeps_def)

lemma run_result:
  assumes db: "db (opt orm) \<noteq> None"
  shows "fst (run orm flags) = None \<and>
         quiet (orm\<lparr>generator := Some newGenerator\<rparr>) (snd (run orm flags))"
proof -
  define orm0 where "orm0 = orm\<lparr>generator := Some newGenerator\<rparr>"
  have g0: "generator orm0 \<noteq> None" and op0: "opt orm0 = opt orm" by (simp_all add: orm0_def)
  define e1 where "e1 = fst (formatGlobal orm0)"
  define o1 where "o1 = snd (formatGlobal orm0)"
  have fg: "formatGlobal orm0 = (e1, o1)" by (simp add: e1_def o1_def)
  have q1: "quiet orm0 o1" using formatGlobal_quiet [OF g0] by (simp add: o1_def)
  have n1: "e1 \<noteq> Some NilDereference"
    using formatGlobal_fst_frame [of orm0] formatError_no_panic [OF g0] by (simp add: e1_def)
  have g1: "generator o1 \<noteq> None" using quiet_generator [OF q1] .
  have db1: "db (opt o1) \<noteq> None" using db formatGlobal_opt [of orm0] op0 by (simp add: o1_def)
  define e2 where "e2 = fst (exec o1 flags)"
  define o2 where "o2 = snd (exec o1 flags)"
  have ex: "exec o1 flags = (e2, o2)" by (simp add: e2_def o2_def)
  have q2: "quiet o1 o2" and n2: "e2 \<noteq> Some NilDereference"
    using exec_quiet [OF g1 db1, of flags] by (simp_all add: e2_def o2_def)
  have q02: "quiet orm0 o2" using q1 q2 quiet_trans by blast
  have r: "run orm flags =
     (case e1 of
        Some NilDereference \<Rightarrow> (Some NilDereference, o1)
      | Some (ErrorsNew msg) \<Rightarrow> (None, o1\<lparr>console := console o1 @
                   [Red ([CHR 0x0A] @ ''Error formatting retags: '' @ msg @ [CHR 0x0A, CHR 0x0A])]\<rparr>)
      | None \<Rightarrow>
         (case e2 of
            Some NilDereference \<Rightarrow> (Some NilDereference, o2)
          | Some (ErrorsNew msg) \<Rightarrow> (None, o2\<lparr>console := console o2 @
                        [Red ([CHR 0x0A] @ ''Error generating Gorm code: '' @ msg @ [CHR 0x0A, CHR 0x0A])]\<rparr>)
          | None \<Rightarrow> (None, o2\<lparr>console := console o2 @
                        [Green ([CHR 0x0A] @ ''Gorm code generation completed successfully.'' @
                                [CHR 0x0A, CHR 0x0A])]\<rparr>)))"
  proof -
    obtain d where d: "db (opt orm) = Some d" using db by auto
    show ?thesis
      unfolding run_def Let_def newGenerator_def [symmetric] orm0_def [symmetric] fg
      by (cases e1; cases e2) (simp_all add: d ex split: error.splits)
  qed
  show ?thesis
  proof (cases e1)
    case (Some err)
    then obtain msg where "err = ErrorsNew msg" using n1 by (cases err) auto
    then have "run orm flags = (None, o1\<lparr>console := console o1 @
                   [Red ([CHR 0x0A] @ ''Error formatting retags: '' @ msg @ [CHR 0x0A, CHR 0x0A])]\<rparr>)"
      using r Some by simp
    then show ?thesis using q1 quiet_same unfolding orm0_def by fastforce
  next
    case None
    show ?thesis
    proof (cases e2)
      case N2: None
      then have "run orm flags = (None, o2\<lparr>console := console o2 @
                        [Green ([CHR 0x0A] @ ''Gorm code generation completed successfully.'' @
                                [CHR 0x0A, CHR 0x0A])]\<rparr>)"
        using r None by simp
      then show ?thesis using q02 quiet_same unfolding orm0_def by fastforce
    next
      case (Some err)
      then obtain msg where "err = ErrorsNew msg" using n2 by (cases err) auto
      then have "run orm flags = (None, o2\<lparr>console := console o2 @
                        [Red ([CHR 0x0A] @ ''Error generating Gorm code: '' @ msg @ [CHR 0x0A, CHR 0x0A])]\<rparr>)"
        using r None Some by simp
      then show ?thesis using q02 quiet_same unfolding orm0_def by fastforce
    qed
  qed
qed

lemma run_abort:
  assumes db: "db (opt orm) \<noteq> None"
    and err: "formatError (opt orm) (Some newGenerator) = Some (ErrorsNew msg)"
  shows "fst (run orm flags) = None \<and>
         console (snd (run orm flags)) = console orm @
           [Red ([CHR 0x0A] @ ''Error formatting retags: '' @ msg @ [CHR 0x0A, CHR 0x0A])] \<and>
         structs (snd (run orm flags)) = structs orm \<and>
         (generator (snd (run orm flags)) = Some newGenerator \<or>
          generator (snd (run orm flags)) =
            Some (newGenerator @ [WithFileNameStrategy (fileNameStrategy (rename (opt orm)))]))"
proof -
  define orm0 where "orm0 = orm\<lparr>generator := Some newGenerator\<rparr>"
  define o1 where "o1 = snd (formatGlobal orm0)"
  have f: "fst (formatGlobal orm0) = Some (ErrorsNew msg)"
    using formatGlobal_fst_frame [of orm0] err by (simp add: orm0_def)
  then have fg: "formatGlobal orm0 = (Some (ErrorsNew msg), o1)"
    by (cases "formatGlobal orm0") (simp add: o1_def)
  have k: "keeps orm0 o1 \<or>
    keeps (orm0\<lparr>generator := map_option (\<lambda>tr. tr @
             [WithFileNameStrategy (fileNameStrategy (rename (opt orm0)))]) (generator orm0)\<rparr>) o1"
    using formatGlobal_fst_frame [of orm0] by (simp add: o1_def)
  have r: "run orm flags = (None, o1\<lparr>console := console o1 @
                   [Red ([CHR 0x0A] @ ''Error formatting retags: '' @ msg @ [CHR 0x0A, CHR 0x0A])]\<rparr>)"
  proof -
    obtain d where d: "db (opt orm) = Some d" using db by auto
    show ?thesis
      unfolding run_def Let_def newGenerator_def [symmetric] orm0_def [symmetric] fg
      by (simp add: d)
  qed
  show ?thesis unfolding r using k by (auto simp add: keeps_def orm0_def)
qed

lemma list3: "length xs = 3 \<Longrightarrow> xs = [xs ! 0, xs ! 1, xs ! 2]"
  by (cases xs; cases "tl xs"; cases "tl (tl xs)") auto

lemma list2: "length xs = 2 \<Longrightarrow> xs = [xs ! 0, xs ! 1]"
  by (cases xs; cases "tl xs") auto

lemma json_image [simp]:
  "FieldJSONTag f v \<in> (\<lambda>r. FieldJSONTag (fst r) (snd r)) ` S \<longleftrightarrow> (f, v) \<in> S"
  by force

lemma json_not_gorm [simp]: "FieldJSONTag f v \<notin> (\<lambda>r. FieldGORMTag (fst r) (snd r)) ` S"
  by auto

lemma json_not_ignore [simp]: "FieldJSONTag f v \<notin> FieldIgnore ` S"
  by auto

lemma optByTable_fst:
  "fst (optByTable orm T) =
     (case map_of (ignoreopt orm) T of Some ign \<Rightarrow> [FieldIgnore ign] | None \<Rightarrow> []) @
     map (\<lambda>r. FieldJSONTag (fst r) (snd r)) (lookupList (retagopt orm) T) @
     map (\<lambda>r. FieldGORMTag (fst r) (snd r)) (lookupList (regormtag orm) T)"
  by (simp add: optByTable_def Let_def lookupList_def split: option.splits prod.splits)

lemma resolved_retag_lookup:
  "resolved op gen orm' \<Longrightarrow>
   lookupList (retagopt orm') T = (if T = ''*'' then [] else retagRules T (retags op))"
  by (simp add: resolved_def lookupList_def)

lemma resolved_json_in_table:
  assumes r: "resolved op gen orm'"
  shows "FieldJSONTag f v \<in> set (fst (optByTable orm' T)) \<longleftrightarrow>
         T \<noteq> ''*'' \<and> (f, v) \<in> set (retagRules T (retags op))"
proof -
  have "regormtag orm' = []" using r by (simp add: resolved_def)
  then have g: "lookupList (regormtag orm') T = []" by (simp add: lookupList_def)
  have "FieldJSONTag f v \<in> set (fst (optByTable orm' T)) \<longleftrightarrow>
        (f, v) \<in> set (lookupList (retagopt orm') T)"
    unfolding optByTable_fst g by (auto split: option.splits)
  then show ?thesis using resolved_retag_lookup [OF r, of T] by simp
qed

lemma resolved_json_in_global:
  assumes r: "resolved op gen orm'"
  shows "FieldJSONTag f v \<in> set (global orm') \<longleftrightarrow> (f, v) \<in> set (retagRules ''*'' (retags op))"
proof -
  have "global orm' =
       map (\<lambda>r. FieldJSONTag (fst r) (snd r)) (retagRules ''*'' (retags op)) @
       map (\<lambda>r. FieldGORMTag (fst r) (snd r)) (gormRules ''*'' (reGromTags op)) @
       map FieldIgnore (ignoreRules ''*'' (ignore op))"
    using r by (simp add: resolved_def)
  then show ?thesis by auto
qed

lemma retagRules_mem:
  assumes wf: "\<forall>d\<in>set ds. length (strings_Split d ''->'') = 3"
  shows "(f, v) \<in> set (retagRules T ds) \<longleftrightarrow>
         (\<exists>d\<in>set ds. \<exists>t. strings_Split d ''->'' = [T, f, t] \<and> v = t @ '',omitempty'')"
proof
  assume "(f, v) \<in> set (retagRules T ds)"
  then obtain d where d: "d \<in> set ds" and s: "strings_Split d ''->'' ! 0 = T"
    and f: "f = strings_Split d ''->'' ! 1" and v: "v = strings_Split d ''->'' ! 2 @ '',omitempty''"
    by (auto simp add: retagRules_def)
  have "strings_Split d ''->'' = [T, f, strings_Split d ''->'' ! 2]"
    using list3 [of "strings_Split d ''->''"] wf d s f by simp
  then show "\<exists>d\<in>set ds. \<exists>t. strings_Split d ''->'' = [T, f, t] \<and> v = t @ '',omitempty''"
    using d v by blast
next
  assume "\<exists>d\<in>set ds. \<exists>t. strings_Split d ''->'' = [T, f, t] \<and> v = t @ '',omitempty''"
  then obtain d t where d: "d \<in> set ds" and p: "strings_Split d ''->'' = [T, f, t]"
    and v: "v = t @ '',omitempty''" by blast
  have "(strings_Split d ''->'' ! 1, strings_Split d ''->'' ! 2 @ '',omitempty'') \<in>
        set (retagRules T ds)"
    using d p by (force simp add: retagRules_def)
  then show "(f, v) \<in> set (retagRules T ds)" using p v by simp
qed

text \<open>
  C10. After a successful \<open>formatGlobal\<close>, every retag directive \<open>scope->field->tag\<close> has
  produced the JSON tag option of \<open>field\<close> with the value \<open>tag,omitempty\<close>, in the global
  list for the scope \<open>*\<close> and in the options of the table otherwise; and every JSON tag
  option, global or of any table, is such a value of some retag directive. In every run
  that has a database, the generator is given exactly one JSON tag name strategy, the
  function that appends \<open>,omitempty\<close> to the column name.
\<close>

theorem json_tags_end_in_omitempty:
  "(formatGlobal ((NewOrmCommand opts)\<lparr>generator := gen\<rparr>) = (None, orm') \<longrightarrow>
      (\<forall>d\<in>set (retags (opt (NewOrmCommand opts))). \<forall>s f t.
          strings_Split d ''->'' = [s, f, t] \<longrightarrow>
          FieldJSONTag f (t @ '',omitempty'') \<in>
            set (if s = ''*'' then global orm' else fst (optByTable orm' s))) \<and>
      (\<forall>T f v. FieldJSONTag f v \<in> set (global orm') \<union> set (fst (optByTable orm' T)) \<longrightarrow>
          (\<exists>d\<in>set (retags (opt (NewOrmCommand opts))). \<exists>s t.
              strings_Split d ''->'' = [s, f, t] \<and> v = t @ '',omitempty''))) \<and>
   (db (opt (NewOrmCommand opts)) \<noteq> None \<longrightarrow>
      (\<exists>tr. generator (snd (run (NewOrmCommand opts) flags)) = Some tr \<and>
            List.map_filter jsonTagNS tr = [\<lambda>columnName. columnName @ '',omitempty'']))"
proof -
  let ?op = "opt (NewOrmCommand opts)"
  have A: "(\<forall>d\<in>set (retags ?op). \<forall>s f t.
          strings_Split d ''->'' = [s, f, t] \<longrightarrow>
          FieldJSONTag f (t @ '',omitempty'') \<in>
            set (if s = ''*'' then global orm' else fst (optByTable orm' s))) \<and>
      (\<forall>T f v. FieldJSONTag f v \<in> set (global orm') \<union> set (fst (optByTable orm' T)) \<longrightarrow>
          (\<exists>d\<in>set (retags ?op). \<exists>s t.
              strings_Split d ''->'' = [s, f, t] \<and> v = t @ '',omitempty''))"
    if ok: "formatGlobal ((NewOrmCommand opts)\<lparr>generator := gen\<rparr>) = (None, orm')"
  proof -
    have r: "resolved ?op gen orm'" using formatGlobal_success(3) [OF ok] .
    have wf: "\<forall>d\<in>set (retags ?op). length (strings_Split d ''->'') = 3"
      using formatGlobal_success(1) [OF ok] by (simp add: wellFormed_def)
    have a: "FieldJSONTag f (t @ '',omitempty'') \<in>
            set (if s = ''*'' then global orm' else fst (optByTable orm' s))"
      if d: "d \<in> set (retags ?op)" and p: "strings_Split d ''->'' = [s, f, t]" for d s f t
    proof -
      have "(f, t @ '',omitempty'') \<in> set (retagRules s (retags ?op))"
        using retagRules_mem [OF wf, of f "t @ '',omitempty''" s] d p by blast
      then show ?thesis
        using resolved_json_in_global [OF r, of f "t @ '',omitempty''"]
          resolved_json_in_table [OF r, of f "t @ '',omitempty''" s] by (cases "s = ''*''") simp_all
    qed
    have b: "\<exists>d\<in>set (retags ?op). \<exists>s t. strings_Split d ''->'' = [s, f, t] \<and> v = t @ '',omitempty''"
      if m: "FieldJSONTag f v \<in> set (global orm') \<union> set (fst (optByTable orm' T))" for T f v
    proof -
      have "(f, v) \<in> set (retagRules ''*'' (retags ?op)) \<or> (f, v) \<in> set (retagRules T (retags ?op))"
        using m resolved_json_in_global [OF r, of f v] resolved_json_in_table [OF r, of f v T]
        by auto
      then show ?thesis using retagRules_mem [OF wf] by blast
    qed
    show ?thesis using a b by blast
  qed
  have B: "\<exists>tr. generator (snd (run (NewOrmCommand opts) flags)) = Some tr \<and>
            List.map_filter jsonTagNS tr = [\<lambda>columnName. columnName @ '',omitempty'']"
    if db: "db ?op \<noteq> None"
  proof -
    have "quiet ((NewOrmCommand opts)\<lparr>generator := Some newGenerator\<rparr>)
            (snd (run (NewOrmCommand opts) flags))"
      using run_result [OF db] by blast
    then obtain ext where e: "generator (snd (run (NewOrmCommand opts) flags)) = Some (newGenerator @ ext)"
      and j: "List.map_filter jsonTagNS ext = []"
      by (auto simp add: quiet_def)
    have "List.map_filter jsonTagNS (newGenerator @ ext) = [\<lambda>columnName. columnName @ '',omitempty'']"
      unfolding map_filter_append j by (simp add: newGenerator_def List.map_filter_def)
    then show ?thesis using e by blast
  qed
  show ?thesis using A B by blast
qed

text \<open>
  The theorem at a configuration with a database, one wildcard retag and one retag for
  \<open>user\<close>, run for the table \<open>user\<close>.
\<close>

theorem json_tags_end_in_omitempty_witness:
  "FieldJSONTag ''created_at'' ''c_date,omitempty'' \<in>
     set (global (snd (formatGlobal (NewOrmCommand
       ([WithDB \<lparr>GetTables = Inr []\<rparr>, WithRetags [''*->created_at->c_date'', ''user->name->n'']]
          :: (string, string) IOrmOption list))))) \<and>
   FieldJSONTag ''name'' ''n,omitempty'' \<in>
     set (fst (optByTable (snd (formatGlobal (NewOrmCommand
       ([WithDB \<lparr>GetTables = Inr []\<rparr>, WithRetags [''*->created_at->c_date'', ''user->name->n'']]
          :: (string, string) IOrmOption list)))) ''user'')) \<and>
   (\<exists>tr. generator (snd (run (NewOrmCommand
       ([WithDB \<lparr>GetTables = Inr []\<rparr>, WithRetags [''*->created_at->c_date'', ''user->name->n'']]
          :: (string, string) IOrmOption list))
       \<lparr>GetString_style = Inr ''model'', GetStringArray_tables = Inr [''user'']\<rparr>)) = Some tr \<and>
      List.map_filter jsonTagNS tr = [\<lambda>columnName. columnName @ '',omitempty''])"
proof -
  let ?opts = "[WithDB \<lparr>GetTables = Inr []\<rparr>, WithRetags [''*->created_at->c_date'', ''user->name->n'']]
                 :: (string, string) IOrmOption list"
  let ?o' = "snd (formatGlobal (NewOrmCommand ?opts))"
  let ?flags = "\<lparr>GetString_style = Inr ''model'', GetStringArray_tables = Inr [''user'']\<rparr>"
  have e: "(NewOrmCommand ?opts)\<lparr>generator := None\<rparr> = NewOrmCommand ?opts"
    by (simp add: NewOrmCommand_def)
  have ok: "formatGlobal ((NewOrmCommand ?opts)\<lparr>generator := None\<rparr>) = (None, ?o')"
    unfolding e by (simp add: formatGlobal_def NewOrmCommand_def option_defs lookupList_def)
  have db: "db (opt (NewOrmCommand ?opts)) \<noteq> None"
    by (simp add: NewOrmCommand_def option_defs)
  have d1: "''*->created_at->c_date'' \<in> set (retags (opt (NewOrmCommand ?opts)))"
    and d2: "''user->name->n'' \<in> set (retags (opt (NewOrmCommand ?opts)))"
    by (simp_all add: NewOrmCommand_def option_defs)
  have p1: "strings_Split ''*->created_at->c_date'' ''->'' = [''*'', ''created_at'', ''c_date'']"
    and p2: "strings_Split ''user->name->n'' ''->'' = [''user'', ''name'', ''n'']"
    by simp_all
  note T = json_tags_end_in_omitempty
    [where opts = ?opts and gen = None and orm' = ?o' and flags = ?flags]
  note A = T [THEN conjunct1, rule_format, OF ok, THEN conjunct1, rule_format]
  have t1: "FieldJSONTag ''created_at'' ''c_date,omitempty'' \<in> set (global ?o')"
    using A [OF d1 p1] by simp
  have t2: "FieldJSONTag ''name'' ''n,omitempty'' \<in> set (fst (optByTable ?o' ''user''))"
    using A [OF d2 p2] by simp
  have t3: "\<exists>tr. generator (snd (run (NewOrmCommand ?opts) ?flags)) = Some tr \<and>
      List.map_filter jsonTagNS tr = [\<lambda>columnName. columnName @ '',omitempty'']"
    using T [THEN conjunct2, rule_format, OF db] .
  show ?thesis using t1 t2 t3 by blast
qed

text \<open>
  C4. When some directive string does not split on \<open>->\<close> into the expected number of
  segments, \<open>formatGlobal\<close> returns an error whose message is a fixed label followed by
  the malformed string that it reaches first; it returns at once, so this is the
  string that stopped it, and a malformed directive never goes unreported. \<open>run\<close> then
  prints this message in red and returns: no model is generated and the generator is
  not executed. The ignore directive \<open>user-created_at\<close> gives the message
  \<open>invalid ignore format: user-created_at\<close>.
\<close>

theorem malformed_directive_aborts_run:
  assumes mal: "malformedDirectives (opt (NewOrmCommand opts)) \<noteq> []"
  shows "(\<exists>label. label \<in> {''invalid retag format: '', ''invalid ignore format: '',
                          ''invalid data type mapping format: ''} \<and>
           fst (formatGlobal ((NewOrmCommand opts)\<lparr>generator := Some tr\<rparr>)) =
             Some (ErrorsNew (label @ hd (malformedDirectives (opt (NewOrmCommand opts))))) \<and>
           (db (opt (NewOrmCommand opts)) \<noteq> None \<longrightarrow>
              fst (run (NewOrmCommand opts) flags) = None \<and>
              console (snd (run (NewOrmCommand opts) flags)) =
                [Red ([CHR 0x0A] @ ''Error formatting retags: '' @ label @
                      hd (malformedDirectives (opt (NewOrmCommand opts))) @ [CHR 0x0A, CHR 0x0A])] \<and>
              structs (snd (run (NewOrmCommand opts) flags)) = [] \<and>
              (\<exists>tr'. generator (snd (run (NewOrmCommand opts) flags)) = Some tr' \<and>
                     Execute \<notin> set tr' \<and> List.map_filter genModelCall tr' = []))) \<and>
         fst (formatGlobal (NewOrmCommand [WithIgnore [''user-created_at'']])) =
           Some (ErrorsNew ''invalid ignore format: user-created_at'')"
proof -
  let ?orm = "NewOrmCommand opts"
  let ?op = "opt ?orm"
  let ?d = "hd (malformedDirectives ?op)"
  obtain label where l: "label \<in> {''invalid retag format: '', ''invalid ignore format: '',
                         ''invalid data type mapping format: ''}"
    and fe: "\<And>g. formatError ?op (Some g) = Some (ErrorsNew (label @ ?d))"
  proof -
    obtain label where "label \<in> {''invalid retag format: '', ''invalid ignore format: '',
                         ''invalid data type mapping format: ''}"
      and "formatError ?op (Some []) = Some (ErrorsNew (label @ ?d))"
      using formatError_malformed [OF mal, of "Some []"] by auto
    moreover have "formatError ?op (Some g) = formatError ?op (Some [])" for g
      by (simp add: formatError_def)
    ultimately show ?thesis using that by metis
  qed
  have a: "fst (formatGlobal (?orm\<lparr>generator := Some tr\<rparr>)) = Some (ErrorsNew (label @ ?d))"
    using formatGlobal_fst_frame [of "?orm\<lparr>generator := Some tr\<rparr>"] fe [of tr] by simp
  have b: "fst (run ?orm flags) = None \<and>
              console (snd (run ?orm flags)) =
                [Red ([CHR 0x0A] @ ''Error formatting retags: '' @ label @ ?d @ [CHR 0x0A, CHR 0x0A])] \<and>
              structs (snd (run ?orm flags)) = [] \<and>
              (\<exists>tr'. generator (snd (run ?orm flags)) = Some tr' \<and>
                     Execute \<notin> set tr' \<and> List.map_filter genModelCall tr' = [])"
    if db: "db ?op \<noteq> None"
  proof -
    have c0: "console ?orm = []" "structs ?orm = []" by (simp_all add: NewOrmCommand_def)
    have r: "fst (run ?orm flags) = None \<and>
         console (snd (run ?orm flags)) = console ?orm @
           [Red ([CHR 0x0A] @ ''Error formatting retags: '' @ (label @ ?d) @ [CHR 0x0A, CHR 0x0A])] \<and>
         structs (snd (run ?orm flags)) = structs ?orm \<and>
         (generator (snd (run ?orm flags)) = Some newGenerator \<or>
          generator (snd (run ?orm flags)) =
            Some (newGenerator @ [WithFileNameStrategy (fileNameStrategy (rename ?op))]))"
      using run_abort [OF db fe [of newGenerator], of flags] .
    have g: "\<exists>tr'. generator (snd (run ?orm flags)) = Some tr' \<and>
                     Execute \<notin> set tr' \<and> List.map_filter genModelCall tr' = []"
      using r by (auto simp add: newGenerator_def List.map_filter_def)
    show ?thesis using r g c0 by simp
  qed
  have c: "fst (formatGlobal (NewOrmCommand [WithIgnore [''user-created_at'']])) =
           Some (ErrorsNew ''invalid ignore format: user-created_at'')"
    by (simp add: formatGlobal_def NewOrmCommand_def option_defs)
  show ?thesis using l a b c by blast
qed

text \<open>
  The theorem at a configuration with a database and the ignore directive
  \<open>user-created_at\<close> after a well-formed one.
\<close>

theorem malformed_directive_aborts_run_witness:
  "fst (formatGlobal ((NewOrmCommand
       ([WithDB \<lparr>GetTables = Inr []\<rparr>, WithIgnore [''*->id'', ''user-created_at'']]
          :: (string, string) IOrmOption list))\<lparr>generator := Some []\<rparr>)) =
     Some (ErrorsNew ''invalid ignore format: user-created_at'') \<and>
   console (snd (run (NewOrmCommand
       ([WithDB \<lparr>GetTables = Inr []\<rparr>, WithIgnore [''*->id'', ''user-created_at'']]
          :: (string, string) IOrmOption list))
       \<lparr>GetString_style = Inr ''model'', GetStringArray_tables = Inr [''user'']\<rparr>)) =
     [Red ([CHR 0x0A] @ ''Error formatting retags: invalid ignore format: user-created_at'' @
           [CHR 0x0A, CHR 0x0A])] \<and>
   (\<exists>tr'. generator (snd (run (NewOrmCommand
       ([WithDB \<lparr>GetTables = Inr []\<rparr>, WithIgnore [''*->id'', ''user-created_at'']]
          :: (string, string) IOrmOption list))
       \<lparr>GetString_style = Inr ''model'', GetStringArray_tables = Inr [''user'']\<rparr>)) = Some tr' \<and>
      Execute \<notin> set tr' \<and> List.map_filter genModelCall tr' = [])"
proof -
  let ?opts = "[WithDB \<lparr>GetTables = Inr []\<rparr>, WithIgnore [''*->id'', ''user-created_at'']]
                 :: (string, string) IOrmOption list"
  let ?flags = "\<lparr>GetString_style = Inr ''model'', GetStringArray_tables = Inr [''user'']\<rparr>"
  have m: "malformedDirectives (opt (NewOrmCommand ?opts)) = [''user-created_at'']"
    by (simp add: malformedDirectives_def NewOrmCommand_def option_defs dataTypeEntries_def)
  have mal: "malformedDirectives (opt (NewOrmCommand ?opts)) \<noteq> []" by (simp add: m)
  have db: "db (opt (NewOrmCommand ?opts)) \<noteq> None"
    by (simp add: NewOrmCommand_def option_defs)
  note T = malformed_directive_aborts_run
    [OF mal, where tr = "[]" and flags = ?flags, THEN conjunct1, unfolded m]
  obtain label where f: "fst (formatGlobal ((NewOrmCommand ?opts)\<lparr>generator := Some []\<rparr>)) =
       Some (ErrorsNew (label @ ''user-created_at''))"
    and r: "db (opt (NewOrmCommand ?opts)) \<noteq> None \<longrightarrow>
              fst (run (NewOrmCommand ?opts) ?flags) = None \<and>
              console (snd (run (NewOrmCommand ?opts) ?flags)) =
                [Red ([CHR 0x0A] @ ''Error formatting retags: '' @ label @
                      ''user-created_at'' @ [CHR 0x0A, CHR 0x0A])] \<and>
              structs (snd (run (NewOrmCommand ?opts) ?flags)) = [] \<and>
              (\<exists>tr'. generator (snd (run (NewOrmCommand ?opts) ?flags)) = Some tr' \<and>
                     Execute \<notin> set tr' \<and> List.map_filter genModelCall tr' = [])"
    using T by auto
  have "fst (formatGlobal ((NewOrmCommand ?opts)\<lparr>generator := Some []\<rparr>)) =
       Some (ErrorsNew ''invalid ignore format: user-created_at'')"
    by (simp add: formatGlobal_def NewOrmCommand_def option_defs)
  then have lab: "label = ''invalid ignore format: ''" using f by simp
  show ?thesis using f r db unfolding lab by simp
qed

section \<open>The data-type maps\<close>

lemma types_t_lookup:
  "map_of (types_t orm T) k =
     (case lookup2 (types orm) T k of Some y \<Rightarrow> Some y | None \<Rightarrow> map_of (globalTypes orm) k)"
  by (simp add: types_t_def lookup2_def merge_conv' map_add_def split: option.splits)

lemma optByTable_snd:
  "snd (optByTable orm T) =
     (if types_t orm T = [] then (None, orm) else genCall (WithDataTypeMap (types_t orm T)) orm)"
  by (simp add: optByTable_def types_t_def Let_def split: prod.splits)


lemma typeRules_distinct:
  assumes dist: "distinct (map fst dt)"
    and wf: "\<forall>kv\<in>set dt. length (strings_Split (fst kv) ''->'') = 2"
  shows "distinct (map fst (typeRules T dt))"
proof -
  let ?P = "\<lambda>kv. strings_Split (fst kv) ''->'' ! 0 = T"
  let ?g = "\<lambda>kv. strings_Split (fst kv) ''->'' ! 1"
  have d: "distinct dt" and i: "inj_on fst (set dt)" using dist by (simp_all add: distinct_map)
  have "inj_on ?g (set (filter ?P dt))"
  proof (rule inj_onI)
    fix x y assume x: "x \<in> set (filter ?P dt)" and y: "y \<in> set (filter ?P dt)" and e: "?g x = ?g y"
    have "strings_Split (fst x) ''->'' = [T, ?g x]"
      using list2 [of "strings_Split (fst x) ''->''"] wf x by auto
    moreover have "strings_Split (fst y) ''->'' = [T, ?g y]"
      using list2 [of "strings_Split (fst y) ''->''"] wf y by auto
    ultimately have "strings_Split (fst x) ''->'' = strings_Split (fst y) ''->''" using e by simp
    then have "fst x = fst y" using Split_inj [of "''->''"] by simp
    then show "x = y" using i x y by (auto dest: inj_onD)
  qed
  moreover have "distinct (filter ?P dt)" using d by simp
  moreover have "map fst (typeRules T dt) = map ?g (filter ?P dt)" by (simp add: typeRules_def)
  ultimately show ?thesis by (simp add: distinct_map)
qed

lemma typeRules_lookup:
  assumes dist: "distinct (map fst dt)"
    and wf: "\<forall>kv\<in>set dt. length (strings_Split (fst kv) ''->'') = 2"
    and mem: "(key, v) \<in> set dt" and p: "strings_Split key ''->'' = [T, a]"
  shows "map_of (rev (typeRules T dt)) a = Some v"
proof -
  have "(a, v) \<in> set (typeRules T dt)"
    using mem p by (force simp add: typeRules_def)
  then have "(a, v) \<in> set (rev (typeRules T dt))" by simp
  moreover have "distinct (map fst (rev (typeRules T dt)))"
    using typeRules_distinct [OF dist wf, of T] by (simp add: rev_map [symmetric])
  ultimately show ?thesis by (rule map_of_is_SomeI [rotated])
qed



section \<open>Where the rules of a scope are stored\<close>

lemma gormRules_mem:
  assumes p: "strings_Split d ''->'' = [T, f, t]" and d: "d \<in> set ds"
  shows "(f, t) \<in> set (gormRules T ds)"
proof -
  have "(strings_Split d ''->'' ! 1, strings_Split d ''->'' ! 2) \<in> set (gormRules T ds)"
    using d p by (force simp add: gormRules_def)
  then show ?thesis using p by simp
qed

lemma ignoreRules_mem:
  assumes p: "strings_Split d ''->'' = [T, fs]" and d: "d \<in> set ds"
  shows "strings_Split fs '','' \<in> set (ignoreRules T ds)"
proof -
  have "strings_Split (strings_Split d ''->'' ! 1) '','' \<in> set (ignoreRules T ds)"
    using d p by (force simp add: ignoreRules_def)
  then show ?thesis using p by simp
qed

lemma ignoreRules_origin:
  assumes wf: "\<forall>d\<in>set ds. length (strings_Split d ''->'') = 2"
    and x: "x \<in> set (concat (ignoreRules T ds))"
  shows "\<exists>d\<in>set ds. \<exists>fs. strings_Split d ''->'' = [T, fs] \<and> x \<in> set (strings_Split fs '','')"
proof -
  obtain d where d: "d \<in> set ds" and s: "strings_Split d ''->'' ! 0 = T"
    and m: "x \<in> set (strings_Split (strings_Split d ''->'' ! 1) '','')"
    using x by (auto simp add: ignoreRules_def)
  have "strings_Split d ''->'' = [T, strings_Split d ''->'' ! 1]"
    using list2 [of "strings_Split d ''->''"] wf d s by simp
  then show ?thesis using d m by blast
qed

lemma typeRules_origin:
  assumes wf: "\<forall>kv\<in>set dt. length (strings_Split (fst kv) ''->'') = 2"
    and m: "map_of (rev (typeRules T dt)) k = Some v"
  shows "\<exists>key. (key, v) \<in> set dt \<and> strings_Split key ''->'' = [T, k]"
proof -
  have "(k, v) \<in> set (typeRules T dt)" using map_of_SomeD [OF m] by simp
  then obtain kv where kv: "kv \<in> set dt" and s: "strings_Split (fst kv) ''->'' ! 0 = T"
    and k: "k = strings_Split (fst kv) ''->'' ! 1" and v: "v = snd kv"
    by (auto simp add: typeRules_def)
  have "strings_Split (fst kv) ''->'' = [T, k]"
    using list2 [of "strings_Split (fst kv) ''->''"] wf kv s k by simp
  moreover have "(fst kv, v) \<in> set dt" using kv v by simp
  ultimately show ?thesis by blast
qed

lemma modelCalls_tables:
  "map fst (modelCalls orm opts vs) = map (\<lambda>val. strings_Split val ''@'' ! 0) vs"
  by (induction vs arbitrary: opts) simp_all

lemma modelCalls_carry:
  "set g \<subseteq> set opts \<Longrightarrow> \<forall>c\<in>set (modelCalls orm opts vs). set g \<subseteq> set (snd c)"
proof (induction vs arbitrary: opts)
  case Nil
  show ?case by simp
next
  case (Cons v vs)
  let ?opts' = "opts @ fst (optByTable orm (strings_Split v ''@'' ! 0))"
  have s: "set g \<subseteq> set ?opts'" using Cons.prems by auto
  have "\<forall>c\<in>set (modelCalls orm ?opts' vs). set g \<subseteq> set (snd c)" using Cons.IH [OF s] .
  then show ?case using s by simp
qed

lemma resolved_generator: "resolved op gen orm' \<Longrightarrow> gen \<noteq> None \<Longrightarrow> generator orm' \<noteq> None"
  by (auto simp add: resolved_def)

text \<open>
  C5. After a successful \<open>formatGlobal\<close>, every directive with the scope \<open>*\<close> has its rule
  in the global set: a retag, a regrom-tag and an ignore directive in the list \<open>global\<close>,
  a data-type entry (of a Go map, so with distinct keys) in the map \<open>globalTypes\<close>. No
  per-table map has the key \<open>*\<close>, and every entry of a per-table map comes from a
  directive whose scope is the name of that table, not \<open>*\<close>; \<open>regormtag\<close> is empty. The
  global set is applied to every table: every call by which \<open>model\<close> generates a table
  carries the whole list \<open>global\<close>, and the data-type map built for any table holds the
  global value of every key that the table does not define itself.
\<close>

theorem wildcard_rules_are_global:
  assumes ok: "formatGlobal ((NewOrmCommand opts)\<lparr>generator := gen\<rparr>) = (None, orm')"
  shows
    "(\<forall>d\<in>set (retags (opt (NewOrmCommand opts))). \<forall>f t.
        strings_Split d ''->'' = [''*'', f, t] \<longrightarrow>
        FieldJSONTag f (t @ '',omitempty'') \<in> set (global orm')) \<and>
     (\<forall>d\<in>set (reGromTags (opt (NewOrmCommand opts))). \<forall>f t.
        strings_Split d ''->'' = [''*'', f, t] \<longrightarrow> FieldGORMTag f t \<in> set (global orm')) \<and>
     (\<forall>d\<in>set (ignore (opt (NewOrmCommand opts))). \<forall>fs.
        strings_Split d ''->'' = [''*'', fs] \<longrightarrow>
        FieldIgnore (strings_Split fs '','') \<in> set (global orm')) \<and>
     (distinct (map fst (dataTypeEntries (opt (NewOrmCommand opts)))) \<longrightarrow>
      (\<forall>kv\<in>set (dataTypeEntries (opt (NewOrmCommand opts))). \<forall>a.
        strings_Split (fst kv) ''->'' = [''*'', a] \<longrightarrow>
        map_of (globalTypes orm') a = Some (snd kv))) \<and>
     map_of (retagopt orm') ''*'' = None \<and> regormtag orm' = [] \<and>
     map_of (ignoreopt orm') ''*'' = None \<and> map_of (types orm') ''*'' = None \<and>
     (\<forall>T rt f v. map_of (retagopt orm') T = Some rt \<longrightarrow> (f, v) \<in> set rt \<longrightarrow>
        T \<noteq> ''*'' \<and>
        (\<exists>d\<in>set (retags (opt (NewOrmCommand opts))). \<exists>t.
           strings_Split d ''->'' = [T, f, t] \<and> v = t @ '',omitempty'')) \<and>
     (\<forall>T ign x. map_of (ignoreopt orm') T = Some ign \<longrightarrow> x \<in> set ign \<longrightarrow>
        T \<noteq> ''*'' \<and>
        (\<exists>d\<in>set (ignore (opt (NewOrmCommand opts))). \<exists>fs.
           strings_Split d ''->'' = [T, fs] \<and> x \<in> set (strings_Split fs '',''))) \<and>
     (\<forall>T k v. lookup2 (types orm') T k = Some v \<longrightarrow>
        T \<noteq> ''*'' \<and>
        (\<exists>key. (key, v) \<in> set (dataTypeEntries (opt (NewOrmCommand opts))) \<and>
           strings_Split key ''->'' = [T, k])) \<and>
     (gen \<noteq> None \<longrightarrow>
      (\<forall>tables ts.
         tables \<noteq> [] \<and> ts = tables \<or>
         tables = [] \<and> (\<exists>d. db (opt orm') = Some d \<and> GetTables d = Inr ts) \<longrightarrow>
         (\<exists>ext. stepsTo orm' ext (snd (model orm' tables)) \<and>
            map fst (List.map_filter genModelCall ext) =
              map (\<lambda>val. strings_Split val ''@'' ! 0) (validTables ts) \<and>
            (\<forall>c\<in>set (List.map_filter genModelCall ext). set (global orm') \<subseteq> set (snd c))))) \<and>
     (\<forall>T a v. map_of (globalTypes orm') a = Some v \<longrightarrow>
        snd (optByTable orm' T) = genCall (WithDataTypeMap (types_t orm' T)) orm' \<and>
        (lookup2 (types orm') T a = None \<longrightarrow> map_of (types_t orm' T) a = Some v))"
proof -
  let ?op = "opt (NewOrmCommand opts)"
  have r: "resolved ?op gen orm'" using formatGlobal_success(3) [OF ok] .
  have wf: "wellFormed ?op" using formatGlobal_success(1) [OF ok] .
  have wr: "\<forall>d\<in>set (retags ?op). length (strings_Split d ''->'') = 3"
    and wi: "\<forall>d\<in>set (ignore ?op). length (strings_Split d ''->'') = 2"
    and wt: "\<forall>kv\<in>set (dataTypeEntries ?op). length (strings_Split (fst kv) ''->'') = 2"
    using wf by (simp_all add: wellFormed_def)
  have gl: "global orm' =
       map (\<lambda>r. FieldJSONTag (fst r) (snd r)) (retagRules ''*'' (retags ?op)) @
       map (\<lambda>r. FieldGORMTag (fst r) (snd r)) (gormRules ''*'' (reGromTags ?op)) @
       map FieldIgnore (ignoreRules ''*'' (ignore ?op))"
    using r by (simp add: resolved_def)
  have rt: "\<And>T. map_of (retagopt orm') T =
        (if T = ''*'' \<or> retagRules T (retags ?op) = [] then None
         else Some (retagRules T (retags ?op)))"
    using r by (simp add: resolved_def)
  have ig: "\<And>T. map_of (ignoreopt orm') T =
        (if T = ''*'' \<or> ignoreRules T (ignore ?op) = [] then None
         else Some (concat (ignoreRules T (ignore ?op))))"
    using r by (simp add: resolved_def)
  have gt: "\<And>k. map_of (globalTypes orm') k = map_of (rev (typeRules ''*'' (dataTypeEntries ?op))) k"
    using r by (simp add: resolved_def)
  have ty: "\<And>T k. lookup2 (types orm') T k =
        (if T = ''*'' then None else map_of (rev (typeRules T (dataTypeEntries ?op))) k)"
    using r by (simp add: resolved_def)
  have c1: "\<forall>d\<in>set (retags ?op). \<forall>f t.
        strings_Split d ''->'' = [''*'', f, t] \<longrightarrow>
        FieldJSONTag f (t @ '',omitempty'') \<in> set (global orm')"
  proof (intro ballI allI impI)
    fix d f t assume d: "d \<in> set (retags ?op)" and p: "strings_Split d ''->'' = [''*'', f, t]"
    have "(f, t @ '',omitempty'') \<in> set (retagRules ''*'' (retags ?op))"
      using retagRules_mem [OF wr, of f "t @ '',omitempty''" "''*''"] d p by blast
    then show "FieldJSONTag f (t @ '',omitempty'') \<in> set (global orm')"
      using resolved_json_in_global [OF r] by simp
  qed
  have c2: "\<forall>d\<in>set (reGromTags ?op). \<forall>f t.
        strings_Split d ''->'' = [''*'', f, t] \<longrightarrow> FieldGORMTag f t \<in> set (global orm')"
  proof (intro ballI allI impI)
    fix d f t assume d: "d \<in> set (reGromTags ?op)" and p: "strings_Split d ''->'' = [''*'', f, t]"
    have "(f, t) \<in> set (gormRules ''*'' (reGromTags ?op))" using gormRules_mem [OF p d] .
    then have "FieldGORMTag (fst (f, t)) (snd (f, t)) \<in>
        (\<lambda>r. FieldGORMTag (fst r) (snd r)) ` set (gormRules ''*'' (reGromTags ?op))"
      by (rule imageI)
    then show "FieldGORMTag f t \<in> set (global orm')" unfolding gl by simp
  qed
  have c3: "\<forall>d\<in>set (ignore ?op). \<forall>fs.
        strings_Split d ''->'' = [''*'', fs] \<longrightarrow>
        FieldIgnore (strings_Split fs '','') \<in> set (global orm')"
  proof (intro ballI allI impI)
    fix d fs assume d: "d \<in> set (ignore ?op)" and p: "strings_Split d ''->'' = [''*'', fs]"
    have "strings_Split fs '','' \<in> set (ignoreRules ''*'' (ignore ?op))"
      using ignoreRules_mem [OF p d] .
    then show "FieldIgnore (strings_Split fs '','') \<in> set (global orm')" unfolding gl by simp
  qed
  have c4: "distinct (map fst (dataTypeEntries ?op)) \<longrightarrow>
      (\<forall>kv\<in>set (dataTypeEntries ?op). \<forall>a.
        strings_Split (fst kv) ''->'' = [''*'', a] \<longrightarrow>
        map_of (globalTypes orm') a = Some (snd kv))"
  proof (intro ballI allI impI)
    fix kv a assume dist: "distinct (map fst (dataTypeEntries ?op))"
      and kv: "kv \<in> set (dataTypeEntries ?op)" and p: "strings_Split (fst kv) ''->'' = [''*'', a]"
    have m: "(fst kv, snd kv) \<in> set (dataTypeEntries ?op)" using kv by simp
    show "map_of (globalTypes orm') a = Some (snd kv)"
      unfolding gt using typeRules_lookup [OF dist wt m p] .
  qed
  have c5: "map_of (retagopt orm') ''*'' = None" by (simp add: rt)
  have c6: "regormtag orm' = []" using r by (simp add: resolved_def)
  have c7: "map_of (ignoreopt orm') ''*'' = None" by (simp add: ig)
  have c8: "map_of (types orm') ''*'' = None" using r by (simp add: resolved_def)
  have c9: "\<forall>T rt f v. map_of (retagopt orm') T = Some rt \<longrightarrow> (f, v) \<in> set rt \<longrightarrow>
        T \<noteq> ''*'' \<and>
        (\<exists>d\<in>set (retags ?op). \<exists>t.
           strings_Split d ''->'' = [T, f, t] \<and> v = t @ '',omitempty'')"
  proof (intro allI impI)
    fix T rt' f v assume m: "map_of (retagopt orm') T = Some rt'" and x: "(f, v) \<in> set rt'"
    have T: "T \<noteq> ''*''" and e: "rt' = retagRules T (retags ?op)"
      using m rt [of T] by (simp_all split: if_splits)
    have "\<exists>d\<in>set (retags ?op). \<exists>t. strings_Split d ''->'' = [T, f, t] \<and> v = t @ '',omitempty''"
      using retagRules_mem [OF wr, of f v T] x e by simp
    then show "T \<noteq> ''*'' \<and>
        (\<exists>d\<in>set (retags ?op). \<exists>t. strings_Split d ''->'' = [T, f, t] \<and> v = t @ '',omitempty'')"
      using T by simp
  qed
  have c10: "\<forall>T ign x. map_of (ignoreopt orm') T = Some ign \<longrightarrow> x \<in> set ign \<longrightarrow>
        T \<noteq> ''*'' \<and>
        (\<exists>d\<in>set (ignore ?op). \<exists>fs.
           strings_Split d ''->'' = [T, fs] \<and> x \<in> set (strings_Split fs '',''))"
  proof (intro allI impI)
    fix T ign x assume m: "map_of (ignoreopt orm') T = Some ign" and x: "x \<in> set ign"
    have T: "T \<noteq> ''*''" and e: "ign = concat (ignoreRules T (ignore ?op))"
      using m ig [of T] by (simp_all split: if_splits)
    have "\<exists>d\<in>set (ignore ?op). \<exists>fs. strings_Split d ''->'' = [T, fs] \<and> x \<in> set (strings_Split fs '','')"
      using ignoreRules_origin [OF wi, of x T] x e by simp
    then show "T \<noteq> ''*'' \<and>
        (\<exists>d\<in>set (ignore ?op). \<exists>fs. strings_Split d ''->'' = [T, fs] \<and> x \<in> set (strings_Split fs '',''))"
      using T by simp
  qed
  have c11: "\<forall>T k v. lookup2 (types orm') T k = Some v \<longrightarrow>
        T \<noteq> ''*'' \<and>
        (\<exists>key. (key, v) \<in> set (dataTypeEntries ?op) \<and> strings_Split key ''->'' = [T, k])"
  proof (intro allI impI)
    fix T k v assume m: "lookup2 (types orm') T k = Some v"
    have T: "T \<noteq> ''*''" and e: "map_of (rev (typeRules T (dataTypeEntries ?op))) k = Some v"
      using m ty [of T k] by (simp_all split: if_splits)
    show "T \<noteq> ''*'' \<and>
        (\<exists>key. (key, v) \<in> set (dataTypeEntries ?op) \<and> strings_Split key ''->'' = [T, k])"
      using T typeRules_origin [OF wt e] by simp
  qed
  have c12: "gen \<noteq> None \<longrightarrow>
      (\<forall>tables ts.
         tables \<noteq> [] \<and> ts = tables \<or>
         tables = [] \<and> (\<exists>d. db (opt orm') = Some d \<and> GetTables d = Inr ts) \<longrightarrow>
         (\<exists>ext. stepsTo orm' ext (snd (model orm' tables)) \<and>
            map fst (List.map_filter genModelCall ext) =
              map (\<lambda>val. strings_Split val ''@'' ! 0) (validTables ts) \<and>
            (\<forall>c\<in>set (List.map_filter genModelCall ext). set (global orm') \<subseteq> set (snd c))))"
  proof (intro allI impI)
    fix tables ts assume g: "gen \<noteq> None"
      and src: "tables \<noteq> [] \<and> ts = tables \<or>
         tables = [] \<and> (\<exists>d. db (opt orm') = Some d \<and> GetTables d = Inr ts)"
    let ?base = "(if length (ignore (opt orm')) > 0 then [FieldIgnore (ignore (opt orm'))] else []) @
               global orm'"
    have g': "generator orm' \<noteq> None" using resolved_generator [OF r g] .
    obtain ext where st: "stepsTo orm' ext (snd (model orm' tables))"
      and mc: "List.map_filter genModelCall ext = modelCalls orm' ?base (validTables ts)"
      using model_steps [OF g' src] by (elim exE conjE) (rule that)
    have s: "set (global orm') \<subseteq> set ?base" by simp
    have a: "map fst (List.map_filter genModelCall ext) =
              map (\<lambda>val. strings_Split val ''@'' ! 0) (validTables ts)"
      unfolding mc by (rule modelCalls_tables)
    have b: "\<forall>c\<in>set (List.map_filter genModelCall ext). set (global orm') \<subseteq> set (snd c)"
      unfolding mc using modelCalls_carry [OF s] .
    show "\<exists>ext. stepsTo orm' ext (snd (model orm' tables)) \<and>
            map fst (List.map_filter genModelCall ext) =
              map (\<lambda>val. strings_Split val ''@'' ! 0) (validTables ts) \<and>
            (\<forall>c\<in>set (List.map_filter genModelCall ext). set (global orm') \<subseteq> set (snd c))"
      using st a b by blast
  qed
  have c13: "\<forall>T a v. map_of (globalTypes orm') a = Some v \<longrightarrow>
        snd (optByTable orm' T) = genCall (WithDataTypeMap (types_t orm' T)) orm' \<and>
        (lookup2 (types orm') T a = None \<longrightarrow> map_of (types_t orm' T) a = Some v)"
  proof (intro allI impI)
    fix T a v assume m: "map_of (globalTypes orm') a = Some v"
    have "map_of (types_t orm' T) a \<noteq> None"
      using m by (simp add: types_t_lookup split: option.splits)
    then have ne: "types_t orm' T \<noteq> []" by auto
    have l: "lookup2 (types orm') T a = None \<longrightarrow> map_of (types_t orm' T) a = Some v"
      using m by (simp add: types_t_lookup)
    show "snd (optByTable orm' T) = genCall (WithDataTypeMap (types_t orm' T)) orm' \<and>
        (lookup2 (types orm') T a = None \<longrightarrow> map_of (types_t orm' T) a = Some v)"
      using ne l by (simp add: optByTable_snd)
  qed
  show ?thesis
    by (intro conjI) (rule c1 c2 c3 c4 c5 c6 c7 c8 c9 c10 c11 c12 c13)+
qed

text \<open>
  The theorem at a configuration with a wildcard directive of each kind and the table
  directives \<open>user->id->uid\<close>, \<open>user->secret\<close> and \<open>user->b: Y\<close>, for a run over the
  tables \<open>user\<close> and \<open>order\<close>.
\<close>

theorem wildcard_rules_are_global_witness:
  "FieldJSONTag ''name'' ''n,omitempty'' \<in> set (global (snd (formatGlobal ((NewOrmCommand
       ([WithRetags [''*->name->n'', ''user->id->uid''], WithReGromTags [''*->email->mail''],
        WithIgnore [''*->created_at,updated_at'', ''user->secret''],
        WithDataType (Some [(''*->a'', ''X''), (''user->b'', ''Y'')])]
          :: (string, string) IOrmOption list))\<lparr>generator := Some []\<rparr>)))) \<and>
   FieldGORMTag ''email'' ''mail'' \<in> set (global (snd (formatGlobal ((NewOrmCommand
       ([WithRetags [''*->name->n'', ''user->id->uid''], WithReGromTags [''*->email->mail''],
        WithIgnore [''*->created_at,updated_at'', ''user->secret''],
        WithDataType (Some [(''*->a'', ''X''), (''user->b'', ''Y'')])]
          :: (string, string) IOrmOption list))\<lparr>generator := Some []\<rparr>)))) \<and>
   FieldIgnore [''created_at'', ''updated_at''] \<in> set (global (snd (formatGlobal ((NewOrmCommand
       ([WithRetags [''*->name->n'', ''user->id->uid''], WithReGromTags [''*->email->mail''],
        WithIgnore [''*->created_at,updated_at'', ''user->secret''],
        WithDataType (Some [(''*->a'', ''X''), (''user->b'', ''Y'')])]
          :: (string, string) IOrmOption list))\<lparr>generator := Some []\<rparr>)))) \<and>
   map_of (globalTypes (snd (formatGlobal ((NewOrmCommand
       ([WithRetags [''*->name->n'', ''user->id->uid''], WithReGromTags [''*->email->mail''],
        WithIgnore [''*->created_at,updated_at'', ''user->secret''],
        WithDataType (Some [(''*->a'', ''X''), (''user->b'', ''Y'')])]
          :: (string, string) IOrmOption list))\<lparr>generator := Some []\<rparr>)))) ''a'' = Some ''X'' \<and>
   map_of (retagopt (snd (formatGlobal ((NewOrmCommand
       ([WithRetags [''*->name->n'', ''user->id->uid''], WithReGromTags [''*->email->mail''],
        WithIgnore [''*->created_at,updated_at'', ''user->secret''],
        WithDataType (Some [(''*->a'', ''X''), (''user->b'', ''Y'')])]
          :: (string, string) IOrmOption list))\<lparr>generator := Some []\<rparr>)))) ''*'' = None \<and>
   map_of (ignoreopt (snd (formatGlobal ((NewOrmCommand
       ([WithRetags [''*->name->n'', ''user->id->uid''], WithReGromTags [''*->email->mail''],
        WithIgnore [''*->created_at,updated_at'', ''user->secret''],
        WithDataType (Some [(''*->a'', ''X''), (''user->b'', ''Y'')])]
          :: (string, string) IOrmOption list))\<lparr>generator := Some []\<rparr>)))) ''*'' = None \<and>
   map_of (types (snd (formatGlobal ((NewOrmCommand
       ([WithRetags [''*->name->n'', ''user->id->uid''], WithReGromTags [''*->email->mail''],
        WithIgnore [''*->created_at,updated_at'', ''user->secret''],
        WithDataType (Some [(''*->a'', ''X''), (''user->b'', ''Y'')])]
          :: (string, string) IOrmOption list))\<lparr>generator := Some []\<rparr>)))) ''*'' = None \<and>
   (\<exists>t. ''uid,omitempty'' = t @ '',omitempty'' \<and>
        ''user->id->'' @ t \<in> {''*->name->n'', ''user->id->uid''}) \<and>
   (\<exists>fs. ''secret'' \<in> set (strings_Split fs '','') \<and>
        ''user->'' @ fs \<in> {''*->created_at,updated_at'', ''user->secret''}) \<and>
   (''user->b'', ''Y'') \<in> {(''*->a'', ''X''), (''user->b'', ''Y'')} \<and>
   (\<exists>ext. stepsTo (snd (formatGlobal ((NewOrmCommand
       ([WithRetags [''*->name->n'', ''user->id->uid''], WithReGromTags [''*->email->mail''],
        WithIgnore [''*->created_at,updated_at'', ''user->secret''],
        WithDataType (Some [(''*->a'', ''X''), (''user->b'', ''Y'')])]
          :: (string, string) IOrmOption list))\<lparr>generator := Some []\<rparr>))) ext
            (snd (model (snd (formatGlobal ((NewOrmCommand
       ([WithRetags [''*->name->n'', ''user->id->uid''], WithReGromTags [''*->email->mail''],
        WithIgnore [''*->created_at,updated_at'', ''user->secret''],
        WithDataType (Some [(''*->a'', ''X''), (''user->b'', ''Y'')])]
          :: (string, string) IOrmOption list))\<lparr>generator := Some []\<rparr>))) [''user'', ''order''])) \<and>
          map fst (List.map_filter genModelCall ext) = [''user'', ''order''] \<and>
          (\<forall>c\<in>set (List.map_filter genModelCall ext).
             {FieldJSONTag ''name'' ''n,omitempty'', FieldGORMTag ''email'' ''mail'',
              FieldIgnore [''created_at'', ''updated_at'']} \<subseteq> set (snd c))) \<and>
   map_of (types_t (snd (formatGlobal ((NewOrmCommand
       ([WithRetags [''*->name->n'', ''user->id->uid''], WithReGromTags [''*->email->mail''],
        WithIgnore [''*->created_at,updated_at'', ''user->secret''],
        WithDataType (Some [(''*->a'', ''X''), (''user->b'', ''Y'')])]
          :: (string, string) IOrmOption list))\<lparr>generator := Some []\<rparr>))) ''order'') ''a'' = Some ''X''"
proof -
  let ?opts = "[WithRetags [''*->name->n'', ''user->id->uid''], WithReGromTags [''*->email->mail''],
        WithIgnore [''*->created_at,updated_at'', ''user->secret''],
        WithDataType (Some [(''*->a'', ''X''), (''user->b'', ''Y'')])]
          :: (string, string) IOrmOption list"
  let ?o' = "snd (formatGlobal ((NewOrmCommand ?opts)\<lparr>generator := Some []\<rparr>))"
  have ok: "formatGlobal ((NewOrmCommand ?opts)\<lparr>generator := Some []\<rparr>) = (None, ?o')"
    by (simp add: formatGlobal_def NewOrmCommand_def option_defs lookupList_def)
  have rs: "retags (opt (NewOrmCommand ?opts)) = [''*->name->n'', ''user->id->uid'']"
    and gs: "reGromTags (opt (NewOrmCommand ?opts)) = [''*->email->mail'']"
    and igs: "ignore (opt (NewOrmCommand ?opts)) = [''*->created_at,updated_at'', ''user->secret'']"
    and ds: "dataTypeEntries (opt (NewOrmCommand ?opts)) = [(''*->a'', ''X''), (''user->b'', ''Y'')]"
    by (simp_all add: dataTypeEntries_def NewOrmCommand_def option_defs)
  have gl: "global ?o' = [FieldJSONTag ''name'' ''n,omitempty'', FieldGORMTag ''email'' ''mail'',
              FieldIgnore [''created_at'', ''updated_at'']]"
    and ro: "map_of (retagopt ?o') ''user'' = Some [(''id'', ''uid,omitempty'')]"
    and io: "map_of (ignoreopt ?o') ''user'' = Some [''secret'']"
    and to: "lookup2 (types ?o') ''user'' ''b'' = Some ''Y''"
    and tn: "lookup2 (types ?o') ''order'' ''a'' = None"
    by (simp_all add: formatGlobal_def NewOrmCommand_def option_defs lookupList_def lookup2_def)
  note T = wildcard_rules_are_global [OF ok, unfolded rs gs igs ds]
  note T2 = T [THEN conjunct2]
  note T3 = T2 [THEN conjunct2]
  note T4 = T3 [THEN conjunct2]
  note T5 = T4 [THEN conjunct2]
  note T7 = T5 [THEN conjunct2, THEN conjunct2]
  note T8 = T7 [THEN conjunct2]
  note T9 = T8 [THEN conjunct2]
  note T10 = T9 [THEN conjunct2]
  note T11 = T10 [THEN conjunct2]
  note T12 = T11 [THEN conjunct2]
  note T13 = T12 [THEN conjunct2]
  have w1: "FieldJSONTag ''name'' ''n,omitempty'' \<in> set (global ?o')"
    using T [THEN conjunct1, rule_format, of "''*->name->n''" "''name''" "''n''"] by simp
  have w2: "FieldGORMTag ''email'' ''mail'' \<in> set (global ?o')"
    using T2 [THEN conjunct1, rule_format, of "''*->email->mail''" "''email''" "''mail''"] by simp
  have w3: "FieldIgnore [''created_at'', ''updated_at''] \<in> set (global ?o')"
    using T3 [THEN conjunct1, rule_format, of "''*->created_at,updated_at''" "''created_at,updated_at''"]
    by simp
  have w4: "map_of (globalTypes ?o') ''a'' = Some ''X''"
    using T4 [THEN conjunct1, rule_format, of "(''*->a'', ''X'')" "''a''"] by simp
  have w5: "map_of (retagopt ?o') ''*'' = None" using T5 [THEN conjunct1] .
  have w7: "map_of (ignoreopt ?o') ''*'' = None" using T7 [THEN conjunct1] .
  have w8: "map_of (types ?o') ''*'' = None" using T8 [THEN conjunct1] .
  have "\<exists>d\<in>set [''*->name->n'', ''user->id->uid'']. \<exists>t.
      strings_Split d ''->'' = [''user'', ''id'', t] \<and> ''uid,omitempty'' = t @ '',omitempty''"
    using T9 [THEN conjunct1, rule_format, OF ro, of "''id''" "''uid,omitempty''"] by simp
  then have w9: "\<exists>t. ''uid,omitempty'' = t @ '',omitempty'' \<and>
        ''user->id->'' @ t \<in> {''*->name->n'', ''user->id->uid''}"
    by auto
  have "\<exists>d\<in>set [''*->created_at,updated_at'', ''user->secret'']. \<exists>fs.
      strings_Split d ''->'' = [''user'', fs] \<and> ''secret'' \<in> set (strings_Split fs '','')"
    using T10 [THEN conjunct1, rule_format, OF io, of "''secret''"] by simp
  then have w10: "\<exists>fs. ''secret'' \<in> set (strings_Split fs '','') \<and>
        ''user->'' @ fs \<in> {''*->created_at,updated_at'', ''user->secret''}"
    by auto
  have "\<exists>key. (key, ''Y'') \<in> set [(''*->a'', ''X''), (''user->b'', ''Y'')] \<and>
      strings_Split key ''->'' = [''user'', ''b'']"
    using T11 [THEN conjunct1, rule_format, OF to] by simp
  then have w11: "(''user->b'', ''Y'') \<in> {(''*->a'', ''X''), (''user->b'', ''Y'')}"
    by auto
  have v: "validTables [''user'', ''order''] = [''user'', ''order'']"
    by (simp add: validTables_def)
  have w12: "\<exists>ext. stepsTo ?o' ext (snd (model ?o' [''user'', ''order''])) \<and>
          map fst (List.map_filter genModelCall ext) = [''user'', ''order''] \<and>
          (\<forall>c\<in>set (List.map_filter genModelCall ext).
             {FieldJSONTag ''name'' ''n,omitempty'', FieldGORMTag ''email'' ''mail'',
              FieldIgnore [''created_at'', ''updated_at'']} \<subseteq> set (snd c))"
    using T12 [THEN conjunct1, rule_format, of "[''user'', ''order'']" "[''user'', ''order'']"]
    unfolding gl v by simp
  have w13: "map_of (types_t ?o' ''order'') ''a'' = Some ''X''"
    using T13 [rule_format, OF w4, of "''order''", THEN conjunct2] tn by simp
  show ?thesis
    by (intro conjI) (rule w1 w2 w3 w4 w5 w7 w8 w9 w10 w11 w12 w13)+
qed

end
